theory Spec2Isabelle
  imports Main
begin

section \<open>Python values and exceptions\<close>

text \<open>
  The Jira pipeline of \<^verbatim>\<open>src/utils/jira_pipeline.py\<close> works on untyped values decoded
  from JSON. They are modelled by the datatype below. A dict is an association list in
  insertion order; \<open>map_of\<close> is the lookup. A string is a list of 8-bit characters, read
  as the code points below 256. Floating-point numbers are left out: no path of the pipeline
  computes with a number.
\<close>

datatype pyval =
    PNone
  | PBool bool
  | PInt int
  | PStr string
  | PList "pyval list"
  | PDict "(string \<times> pyval) list"

text \<open>
  An exception carries what its description is built from. \<open>Fault\<close> stands for whatever
  an external collaborator raises (the Jira client, the operating system); its argument is
  the description.
\<close>

datatype exn =
    RuntimeError string
  | AttributeError string
  | TypeError string
  | ValidationError "string list"
  | Fault string

fun show_nat :: "nat \<Rightarrow> string" where
  "show_nat n =
     (if n < 10 then [''0123456789'' ! n]
      else show_nat (n div 10) @ [''0123456789'' ! (n mod 10)])"

declare show_nat.simps [simp del]

definition show_int :: "int \<Rightarrow> string" where
  "show_int i = (if i < 0 then CHR ''-'' # show_nat (nat (- i)) else show_nat (nat i))"

text \<open>
  \<open>str(e)\<close>. For pydantic's \<open>ValidationError\<close> the description is the headline and the
  names of the rejected fields; the explanatory lines pydantic adds under each name are not
  reproduced.
\<close>

fun str_exn :: "exn \<Rightarrow> string" where
  "str_exn (RuntimeError m) = m"
| "str_exn (AttributeError m) = m"
| "str_exn (TypeError m) = m"
| "str_exn (ValidationError names) =
     show_nat (length names) @ '' validation error''
       @ (if length names = 1 then [] else ''s'') @ '' for JiraIssue''
       @ concat (map (\<lambda>n. CHR 0x0A # n) names)"
| "str_exn (Fault m) = m"

definition bind_exn :: "exn + 'a \<Rightarrow> ('a \<Rightarrow> exn + 'b) \<Rightarrow> exn + 'b" where
  "bind_exn m f = (case m of Inl e \<Rightarrow> Inl e | Inr v \<Rightarrow> f v)"

text \<open>Truth value testing (\<open>not text\<close>, \<open>if fields.get("assignee")\<close>).\<close>

fun truthy :: "pyval \<Rightarrow> bool" where
  "truthy PNone = False"
| "truthy (PBool b) = b"
| "truthy (PInt i) = (i \<noteq> 0)"
| "truthy (PStr s) = (s \<noteq> [])"
| "truthy (PList xs) = (xs \<noteq> [])"
| "truthy (PDict d) = (d \<noteq> [])"

fun type_name :: "pyval \<Rightarrow> string" where
  "type_name PNone = ''NoneType''"
| "type_name (PBool b) = ''bool''"
| "type_name (PInt i) = ''int''"
| "type_name (PStr s) = ''str''"
| "type_name (PList xs) = ''list''"
| "type_name (PDict d) = ''dict''"

fun isinstance_dict :: "pyval \<Rightarrow> bool" where
  "isinstance_dict (PDict d) = True"
| "isinstance_dict v = False"

text \<open>
  \<open>obj.get(k, dflt)\<close>: only a dict has the method; on anything else the attribute lookup
  raises \<open>AttributeError\<close>.
\<close>

fun py_get :: "pyval \<Rightarrow> string \<Rightarrow> pyval \<Rightarrow> exn + pyval" where
  "py_get (PDict d) k dflt = Inr (case map_of d k of Some v \<Rightarrow> v | None \<Rightarrow> dflt)"
| "py_get obj k dflt =
     Inl (AttributeError ([CHR 0x27] @ type_name obj @ [CHR 0x27]
            @ '' object has no attribute '' @ [CHR 0x27] @ ''get'' @ [CHR 0x27]))"

text \<open>
  \<open>for issue in issues\<close>: a list yields its elements, a string its characters, a dict
  its keys; the other values are not iterable.
\<close>

fun py_iter :: "pyval \<Rightarrow> exn + pyval list" where
  "py_iter (PList xs) = Inr xs"
| "py_iter (PStr s) = Inr (map (\<lambda>c. PStr [c]) s)"
| "py_iter (PDict d) = Inr (map (\<lambda>kv. PStr (fst kv)) d)"
| "py_iter v =
     Inl (TypeError ([CHR 0x27] @ type_name v @ [CHR 0x27] @ '' object is not iterable''))"

section \<open>The library functions the sanitizer calls\<close>

subsection \<open>\<open>json.dumps\<close>\<close>

text \<open>
  \<open>json.dumps\<close> with its defaults: separators \<open>", "\<close> and \<open>": "\<close>, and
  \<open>ensure_ascii\<close>, which escapes every character outside the printable ASCII range.
\<close>

definition hex4 :: "nat \<Rightarrow> string" where
  "hex4 n = [''0123456789abcdef'' ! (n div 4096 mod 16), ''0123456789abcdef'' ! (n div 256 mod 16),
             ''0123456789abcdef'' ! (n div 16 mod 16), ''0123456789abcdef'' ! (n mod 16)]"

definition json_escape_ascii :: "char \<Rightarrow> string" where
  "json_escape_ascii c =
     (if c = CHR 0x22 then [CHR 0x5C, CHR 0x22]
      else if c = CHR 0x5C then [CHR 0x5C, CHR 0x5C]
      else if c = CHR 0x0A then [CHR 0x5C, CHR ''n'']
      else if c = CHR 0x0D then [CHR 0x5C, CHR ''r'']
      else if c = CHR 0x09 then [CHR 0x5C, CHR ''t'']
      else if c = CHR 0x08 then [CHR 0x5C, CHR ''b'']
      else if c = CHR 0x0C then [CHR 0x5C, CHR ''f'']
      else if (of_char c :: nat) < 32 \<or> 126 < (of_char c :: nat)
        then [CHR 0x5C, CHR ''u''] @ hex4 (of_char c)
      else [c])"

definition json_string_ascii :: "string \<Rightarrow> string" where
  "json_string_ascii s = [CHR 0x22] @ concat (map json_escape_ascii s) @ [CHR 0x22]"

fun join :: "string \<Rightarrow> string list \<Rightarrow> string" where
  "join sep [] = []"
| "join sep [x] = x"
| "join sep (x # y # ys) = x @ sep @ join sep (y # ys)"

fun json_dumps :: "pyval \<Rightarrow> string" where
  "json_dumps PNone = ''null''"
| "json_dumps (PBool b) = (if b then ''true'' else ''false'')"
| "json_dumps (PInt i) = show_int i"
| "json_dumps (PStr s) = json_string_ascii s"
| "json_dumps (PList xs) = ''['' @ join '', '' (map json_dumps xs) @ '']''"
| "json_dumps (PDict d) =
     ''{'' @ join '', '' (map (\<lambda>kv. json_string_ascii (fst kv) @ '': '' @ json_dumps (snd kv)) d) @ ''}''"

text \<open>The printable ASCII characters, the only ones \<open>ensure_ascii\<close> lets through.\<close>

definition printable :: "char \<Rightarrow> bool" where
  "printable c = (32 \<le> (of_char c :: nat) \<and> (of_char c :: nat) \<le> 126)"

subsection \<open>Regular expressions (\<open>re.sub\<close>)\<close>

text \<open>
  The character classes of \<open>re\<close> on \<open>str\<close> patterns, for the code points below 256:
  \<open>\s\<close> is the Unicode white space (also what \<open>str.strip()\<close> removes) and \<open>\w\<close> the
  Unicode alphanumerics and the underscore.
\<close>

definition is_space :: "char \<Rightarrow> bool" where
  "is_space c =
     (let n = (of_char c :: nat)
      in (9 \<le> n \<and> n \<le> 13) \<or> (28 \<le> n \<and> n \<le> 32) \<or> n = 133 \<or> n = 160)"

definition is_word :: "char \<Rightarrow> bool" where
  "is_word c =
     (let n = (of_char c :: nat)
      in (48 \<le> n \<and> n \<le> 57) \<or> (65 \<le> n \<and> n \<le> 90) \<or> n = 95 \<or> (97 \<le> n \<and> n \<le> 122)
         \<or> n = 170 \<or> n = 178 \<or> n = 179 \<or> n = 181 \<or> n = 185 \<or> n = 186
         \<or> (188 \<le> n \<and> n \<le> 190) \<or> (192 \<le> n \<and> n \<le> 214)
         \<or> (216 \<le> n \<and> n \<le> 246) \<or> 248 \<le> n)"

text \<open>
  The three patterns of the source are sequences of single-character items: one character
  of a class, or a repetition \<open>+\<close> (greedy) or \<open>+?\<close> (lazy) of a class. A class is a
  predicate on characters.
\<close>

datatype re_item =
    One "char \<Rightarrow> bool"
  | PlusGreedy "char \<Rightarrow> bool"
  | PlusLazy "char \<Rightarrow> bool"

fun first_some :: "(nat \<Rightarrow> nat option) \<Rightarrow> nat list \<Rightarrow> nat option" where
  "first_some f [] = None"
| "first_some f (n # ns) = (case f n of Some k \<Rightarrow> Some k | None \<Rightarrow> first_some f ns)"

text \<open>
  \<open>match_here r s\<close> is the backtracking match of \<open>r\<close> at the start of \<open>s\<close>: the
  length of the match the engine reports, or \<open>None\<close>. A greedy repetition tries the
  longest run of its class first and gives characters back one at a time; a lazy one
  starts with one character and takes more one at a time.
\<close>

primrec match_here :: "re_item list \<Rightarrow> string \<Rightarrow> nat option" where
  "match_here [] = (\<lambda>s. Some 0)"
| "match_here (it # r) = (\<lambda>s.
     case it of
       One p \<Rightarrow>
         (case s of
            [] \<Rightarrow> None
          | c # cs \<Rightarrow> if p c then map_option Suc (match_here r cs) else None)
     | PlusGreedy p \<Rightarrow>
         first_some (\<lambda>n. map_option (\<lambda>k. n + k) (match_here r (drop n s)))
           (rev [1 ..< Suc (length (takeWhile p s))])
     | PlusLazy p \<Rightarrow>
         first_some (\<lambda>n. map_option (\<lambda>k. n + k) (match_here r (drop n s)))
           [1 ..< Suc (length (takeWhile p s))])"

text \<open>
  \<open>re.sub(pattern, repl, s)\<close> for a pattern that matches no empty string (each of the
  three patterns consumes a character): scan from the left, replace the match found at the
  current position and go on behind it, or keep the character and move one position on.
\<close>

function re_sub :: "re_item list \<Rightarrow> string \<Rightarrow> string \<Rightarrow> string" where
  "re_sub r repl [] = []"
| "re_sub r repl (c # cs) =
     (case match_here r (c # cs) of
        Some (Suc n) \<Rightarrow> repl @ re_sub r repl (drop n cs)
      | _ \<Rightarrow> c # re_sub r repl cs)"
  by pat_completeness auto
termination
  by (relation "measure (\<lambda>(r, repl, s). length s)") auto

text \<open>\<open>re.sub\<close> on a value that is not a string raises \<open>TypeError\<close>.\<close>

fun py_re_sub :: "re_item list \<Rightarrow> string \<Rightarrow> pyval \<Rightarrow> exn + string" where
  "py_re_sub r repl (PStr s) = Inr (re_sub r repl s)"
| "py_re_sub r repl v =
     Inl (TypeError (''expected string or bytes-like object, got '' @ [CHR 0x27] @ type_name v @ [CHR 0x27]))"

definition strip :: "string \<Rightarrow> string" where
  "strip s = rev (dropWhile is_space (rev (dropWhile is_space s)))"

definition is_lt :: "char \<Rightarrow> bool" where "is_lt c = (c = CHR 0x3C)"
definition not_lt :: "char \<Rightarrow> bool" where "not_lt c = (c \<noteq> CHR 0x3C)"
definition is_gt :: "char \<Rightarrow> bool" where "is_gt c = (c = CHR 0x3E)"
definition is_at :: "char \<Rightarrow> bool" where "is_at c = (c = CHR 0x40)"
definition is_dot :: "char \<Rightarrow> bool" where "is_dot c = (c = CHR 0x2E)"

definition is_addr :: "char \<Rightarrow> bool" where
  "is_addr c = (is_word c \<or> c = CHR 0x2E \<or> c = CHR 0x2D)"

text \<open>The patterns \<^verbatim>\<open><[^<]+?>\<close>, \<^verbatim>\<open>\s+\<close> and \<^verbatim>\<open>[\w\.-]+@[\w\.-]+\.\w+\<close>.\<close>

definition tag_re :: "re_item list" where
  "tag_re = [One is_lt, PlusLazy not_lt, One is_gt]"

definition space_re :: "re_item list" where
  "space_re = [PlusGreedy is_space]"

definition email_re :: "re_item list" where
  "email_re = [PlusGreedy is_addr, One is_at, PlusGreedy is_addr, One is_dot, PlusGreedy is_word]"

section \<open>Text Sanitizer\<close>

text \<open>
  \<open>clean_text\<close>, lines 83 to 100. The two calls of the \<open>try\<close> block,
  \<open>BeautifulSoup(text, "html.parser").get_text(separator=" ")\<close>, are a library outside the
  repository: they are the parameter \<open>soup\<close>, which returns the text or the exception.
\<close>

definition redact_emails :: "string \<Rightarrow> string" where
  "redact_emails t = re_sub email_re ''[REDACTED]'' t"

definition collapse_spaces :: "string \<Rightarrow> string" where
  "collapse_spaces t = strip (re_sub space_re '' '' t)"

definition clean_text :: "(pyval \<Rightarrow> exn + string) \<Rightarrow> pyval \<Rightarrow> exn + string" where
  "clean_text soup text =
     (if \<not> truthy text then Inr []
      else if isinstance_dict text then Inr (json_dumps text)
      else bind_exn
             (case soup text of
                Inr t \<Rightarrow> Inr t
              | Inl e \<Rightarrow> py_re_sub tag_re [] text)
             (\<lambda>t. Inr (redact_emails (collapse_spaces t))))"

section \<open>Issue Normalizer\<close>

text \<open>
  The pydantic model \<open>JiraIssue\<close>: nine fields of type \<open>Optional[str]\<close>. (The field
  \<open>id\<close> is written \<open>id'\<close>.)
\<close>

record JiraIssue =
  id' :: "string option"
  key :: "string option"
  summary :: "string option"
  description :: "string option"
  status :: "string option"
  priority :: "string option"
  created :: "string option"
  assignee :: "string option"
  project :: "string option"

text \<open>
  Validation of one \<open>Optional[str]\<close> field (pydantic 2, which the source's
  \<open>model_dump_json\<close> belongs to): \<open>None\<close> and strings pass, every other value is rejected.
\<close>

fun valid_optional_str :: "pyval \<Rightarrow> bool" where
  "valid_optional_str PNone = True"
| "valid_optional_str (PStr s) = True"
| "valid_optional_str v = False"

fun optional_str :: "pyval \<Rightarrow> string option" where
  "optional_str (PStr s) = Some s"
| "optional_str v = None"

text \<open>
  The constructor call \<open>JiraIssue(id=..., ..., project=...)\<close>: it raises one
  \<open>ValidationError\<close> naming every rejected field.
\<close>

definition new_JiraIssue ::
  "pyval \<Rightarrow> pyval \<Rightarrow> pyval \<Rightarrow> pyval \<Rightarrow> pyval \<Rightarrow> pyval \<Rightarrow> pyval \<Rightarrow> pyval \<Rightarrow> pyval \<Rightarrow> exn + JiraIssue"
where
  "new_JiraIssue v_id v_key v_summary v_description v_status v_priority v_created
       v_assignee v_project =
     (let kwargs =
            [(''id'', v_id), (''key'', v_key), (''summary'', v_summary),
             (''description'', v_description), (''status'', v_status),
             (''priority'', v_priority), (''created'', v_created),
             (''assignee'', v_assignee), (''project'', v_project)];
          rejected = map fst (filter (\<lambda>kv. \<not> valid_optional_str (snd kv)) kwargs)
      in if rejected \<noteq> [] then Inl (ValidationError rejected)
         else Inr \<lparr> id' = optional_str v_id, key = optional_str v_key,
                    summary = optional_str v_summary,
                    description = optional_str v_description,
                    status = optional_str v_status, priority = optional_str v_priority,
                    created = optional_str v_created, assignee = optional_str v_assignee,
                    project = optional_str v_project \<rparr>)"

text \<open>
  The body of the loop of \<open>normalize_issues\<close>, lines 107 to 123. The keyword arguments
  are evaluated from left to right, and the first exception ends the call.
\<close>

definition normalize_issue :: "(pyval \<Rightarrow> exn + string) \<Rightarrow> pyval \<Rightarrow> exn + JiraIssue" where
  "normalize_issue soup issue =
     bind_exn (py_get issue ''fields'' (PDict [])) (\<lambda>fields.
     bind_exn (py_get issue ''id'' PNone) (\<lambda>v_id.
     bind_exn (py_get issue ''key'' PNone) (\<lambda>v_key.
     bind_exn (py_get fields ''summary'' PNone) (\<lambda>v_summary.
     bind_exn (bind_exn (py_get fields ''description'' PNone) (clean_text soup)) (\<lambda>v_description.
     bind_exn (bind_exn (py_get fields ''status'' (PDict [])) (\<lambda>s. py_get s ''name'' PNone))
       (\<lambda>v_status.
     bind_exn (bind_exn (py_get fields ''priority'' (PDict [])) (\<lambda>p. py_get p ''name'' PNone))
       (\<lambda>v_priority.
     bind_exn (py_get fields ''created'' PNone) (\<lambda>v_created.
     bind_exn
       (bind_exn (py_get fields ''assignee'' PNone) (\<lambda>a.
          if truthy a
          then bind_exn (py_get fields ''assignee'' (PDict []))
                 (\<lambda>a'. py_get a' ''displayName'' PNone)
          else Inr PNone))
       (\<lambda>v_assignee.
     bind_exn
       (bind_exn (py_get fields ''project'' PNone) (\<lambda>p.
          if truthy p
          then bind_exn (py_get fields ''project'' (PDict []))
                 (\<lambda>p'. py_get p' ''name'' PNone)
          else Inr PNone))
       (\<lambda>v_project.
     new_JiraIssue v_id v_key v_summary (PStr v_description) v_status v_priority v_created
       v_assignee v_project))))))))))"

text \<open>The loop, with the list \<open>normalized\<close> it appends to.\<close>

fun normalize_loop ::
  "(pyval \<Rightarrow> exn + string) \<Rightarrow> pyval list \<Rightarrow> JiraIssue list \<Rightarrow> exn + JiraIssue list"
where
  "normalize_loop soup [] normalized = Inr normalized"
| "normalize_loop soup (issue # rest) normalized =
     bind_exn (normalize_issue soup issue)
       (\<lambda>item. normalize_loop soup rest (normalized @ [item]))"

definition normalize_issues :: "(pyval \<Rightarrow> exn + string) \<Rightarrow> pyval \<Rightarrow> exn + JiraIssue list" where
  "normalize_issues soup issues =
     bind_exn (py_iter issues) (\<lambda>xs. normalize_loop soup xs [])"

section \<open>Persistence Writer\<close>

text \<open>
  The text \<open>model_dump_json()\<close> of pydantic 2 returns: the compact object of the nine
  fields in declaration order, \<open>None\<close> as \<open>null\<close>. In a string the quote, the backslash
  and the control characters are escaped; every other character is written as it is.
\<close>

definition json_escape :: "char \<Rightarrow> string" where
  "json_escape c =
     (if c = CHR 0x22 then [CHR 0x5C, CHR 0x22]
      else if c = CHR 0x5C then [CHR 0x5C, CHR 0x5C]
      else if c = CHR 0x08 then [CHR 0x5C, CHR ''b'']
      else if c = CHR 0x0C then [CHR 0x5C, CHR ''f'']
      else if c = CHR 0x0A then [CHR 0x5C, CHR ''n'']
      else if c = CHR 0x0D then [CHR 0x5C, CHR ''r'']
      else if c = CHR 0x09 then [CHR 0x5C, CHR ''t'']
      else if (of_char c :: nat) < 32 then [CHR 0x5C, CHR ''u''] @ hex4 (of_char c)
      else [c])"

definition json_string :: "string \<Rightarrow> string" where
  "json_string s = [CHR 0x22] @ concat (map json_escape s) @ [CHR 0x22]"

definition dump_optional_str :: "string option \<Rightarrow> string" where
  "dump_optional_str v = (case v of None \<Rightarrow> ''null'' | Some s \<Rightarrow> json_string s)"

definition dump_field :: "string \<times> string option \<Rightarrow> string" where
  "dump_field kv = json_string (fst kv) @ '':'' @ dump_optional_str (snd kv)"

definition model_fields :: "JiraIssue \<Rightarrow> (string \<times> string option) list" where
  "model_fields item =
     [(''id'', id' item), (''key'', key item), (''summary'', summary item),
      (''description'', description item), (''status'', status item),
      (''priority'', priority item), (''created'', created item),
      (''assignee'', assignee item), (''project'', project item)]"

definition model_dump_json :: "JiraIssue \<Rightarrow> string" where
  "model_dump_json item = ''{'' @ join '','' (map dump_field (model_fields item)) @ ''}''"

text \<open>
  The method as the library runs it returns that text or raises: pydantic refuses to
  serialize a string with a lone surrogate, a code point the 8-bit strings of this model do
  not have. The writer therefore takes the method as a parameter \<open>dump\<close>; \<open>dump_ok\<close> is
  the method on records it serializes.
\<close>

definition dump_ok :: "JiraIssue \<Rightarrow> exn + string" where
  "dump_ok item = Inr (model_dump_json item)"

text \<open>
  The file system: the content of each file; for each name the exception that opening it
  for writing raises, if any; and the exception, if any, that writing a text to an open
  file raises, given the file's name and what was written to it so far.
\<close>

record filesystem =
  files :: "string \<Rightarrow> string option"
  open_fault :: "string \<Rightarrow> exn option"
  write_fault :: "string \<Rightarrow> string \<Rightarrow> string \<Rightarrow> exn option"

text \<open>
  \<open>save_to_jsonl\<close>, lines 127 to 131. \<open>open(filename, "w")\<close> truncates the file; each
  \<open>f.write\<close> appends to it. \<open>write_items\<close> is the loop, \<open>f\<close> the content written so far:
  it ends at the first exception, of the serialization or of the write, and what was
  written before is taken to have reached the file.
\<close>

fun write_items ::
  "(JiraIssue \<Rightarrow> exn + string) \<Rightarrow> (string \<Rightarrow> string \<Rightarrow> exn option) \<Rightarrow> JiraIssue list \<Rightarrow> string
     \<Rightarrow> (exn + unit) \<times> string"
where
  "write_items dump fault [] f = (Inr (), f)"
| "write_items dump fault (item # data) f =
     (case dump item of
        Inl e \<Rightarrow> (Inl e, f)
      | Inr line \<Rightarrow>
          (case fault f (line @ [CHR 0x0A]) of
             Some e \<Rightarrow> (Inl e, f)
           | None \<Rightarrow> write_items dump fault data (f @ line @ [CHR 0x0A])))"

definition save_to_jsonl ::
  "(JiraIssue \<Rightarrow> exn + string) \<Rightarrow> JiraIssue list \<Rightarrow> string \<Rightarrow> filesystem
     \<Rightarrow> (exn + unit) \<times> filesystem" where
  "save_to_jsonl dump data fname fs =
     (case open_fault fs fname of
        Some e \<Rightarrow> (Inl e, fs)
      | None \<Rightarrow>
          (case write_items dump (write_fault fs fname) data [] of
             (result, f) \<Rightarrow> (result, fs\<lparr>files := (files fs)(fname \<mapsto> f)\<rparr>)))"




definition sound_disk :: filesystem where
  "sound_disk =
     \<lparr> files = [''jira_data.jsonl'' \<mapsto> ''old content''], open_fault = Map.empty,
       write_fault = (\<lambda>name f l. None) \<rparr>"

section \<open>Fetch Orchestrator\<close>

record JiraFetchRequest =
  jql_query :: string
  limit :: int
  save_to_file :: bool
  filename :: string

record JiraFetchResponse =
  count :: int
  issues :: "JiraIssue list"
  success :: bool

datatype http_exception = HTTPException (status_code: int) (detail: string)

text \<open>
  \<open>fetch_jira_issues\<close>, lines 135 to 140. The global \<open>jira_client\<close> is \<open>None\<close> or a
  client, whose method \<open>jql\<close> returns the decoded answer or raises.
\<close>

definition fetch_jira_issues ::
  "(string \<Rightarrow> int \<Rightarrow> exn + pyval) option \<Rightarrow> string \<Rightarrow> int \<Rightarrow> exn + pyval" where
  "fetch_jira_issues jira_client jql lim =
     (case jira_client of
        None \<Rightarrow> Inl (RuntimeError ''Jira client not initialized'')
      | Some client \<Rightarrow>
          bind_exn (client jql lim) (\<lambda>results. py_get results ''issues'' (PList [])))"

text \<open>
  \<open>fetch_jira_tokens\<close>, lines 143 to 162: the result is the response or the
  \<open>HTTPException\<close> raised, together with the file system left behind. \<open>soup\<close> and
  \<open>dump\<close> are the two library calls that are parameters of the sanitizer and the writer.
\<close>

definition fetch_jira_tokens ::
  "(pyval \<Rightarrow> exn + string) \<Rightarrow> (JiraIssue \<Rightarrow> exn + string)
     \<Rightarrow> (string \<Rightarrow> int \<Rightarrow> exn + pyval) option \<Rightarrow> filesystem
     \<Rightarrow> JiraFetchRequest \<Rightarrow> (http_exception + JiraFetchResponse) \<times> filesystem" where
  "fetch_jira_tokens soup dump jira_client fs request =
     (case fetch_jira_issues jira_client (jql_query request) (limit request) of
        Inl e \<Rightarrow> (Inl (HTTPException 500 (str_exn e)), fs)
      | Inr raw_issues \<Rightarrow>
          (case normalize_issues soup raw_issues of
             Inl e \<Rightarrow> (Inl (HTTPException 500 (str_exn e)), fs)
           | Inr normalized \<Rightarrow>
               (case (if save_to_file request
                      then save_to_jsonl dump normalized (filename request) fs
                      else (Inr (), fs)) of
                  (Inl e, fs') \<Rightarrow> (Inl (HTTPException 500 (str_exn e)), fs')
                | (Inr u, fs') \<Rightarrow>
                    (Inr \<lparr> count = int (length normalized), issues = normalized,
                           success = True \<rparr>, fs'))))"

section \<open>A model of the markup parser\<close>

text \<open>
  The properties below hold for every behaviour \<open>soup\<close> of the parser. For the concrete
  scenarios a model of \<open>BeautifulSoup(text, "html.parser").get_text(separator=" ")\<close> is
  needed. \<open>html_parser_text\<close> covers markup made of text and of start and end tags
  (\<^verbatim>\<open><\<close> or \<^verbatim>\<open></\<close>, an ASCII letter, anything up to the next \<^verbatim>\<open>>\<close>): the non-empty runs of
  text between the tags are joined with the separator. Character references, comments,
  declarations and quoted \<^verbatim>\<open>>\<close> inside a tag are outside the model. Markup that is not a
  string makes the library raise \<open>TypeError\<close>; \<open>clean_text\<close> drops that exception, so its
  description plays no role.
\<close>

definition is_ascii_letter :: "char \<Rightarrow> bool" where
  "is_ascii_letter c =
     (let n = (of_char c :: nat) in (65 \<le> n \<and> n \<le> 90) \<or> (97 \<le> n \<and> n \<le> 122))"

fun tag_opens :: "string \<Rightarrow> bool" where
  "tag_opens (a # b # c # cs) =
     (a = CHR 0x3C \<and> (is_ascii_letter b \<or> (b = CHR 0x2F \<and> is_ascii_letter c)))"
| "tag_opens [a, b] = (a = CHR 0x3C \<and> is_ascii_letter b)"
| "tag_opens cs = False"

text \<open>
  \<open>text_runs markup cur\<close>: \<open>cur\<close> is the run of text read so far. A tag that is never
  closed is text.
\<close>

function text_runs :: "string \<Rightarrow> string \<Rightarrow> string list" where
  "text_runs [] cur = [cur]"
| "text_runs (c # cs) cur =
     (if tag_opens (c # cs) \<and> CHR 0x3E \<in> set cs
      then cur # text_runs (tl (dropWhile (\<lambda>x. x \<noteq> CHR 0x3E) cs)) []
      else text_runs cs (cur @ [c]))"
  by pat_completeness auto
termination
  by (relation "measure (\<lambda>(s, cur). length s)")
     (auto simp: less_Suc_eq_le intro: le_trans [OF diff_le_self length_dropWhile_le])

fun html_parser_text :: "pyval \<Rightarrow> exn + string" where
  "html_parser_text (PStr s) = Inr (join '' '' (filter (\<lambda>r. r \<noteq> []) (text_runs s [])))"
| "html_parser_text v = Inl (TypeError ''Incoming markup is of an invalid type'')"

section \<open>Well-formed raw issues\<close>

text \<open>
  The RawIssue of the data model: a mapping with optional \<open>id\<close> and \<open>key\<close> and an
  optional sub-mapping \<open>fields\<close>, in which \<open>summary\<close> and \<open>created\<close> are text,
  \<open>description\<close> is text or a mapping, and \<open>status\<close>, \<open>priority\<close>, \<open>assignee\<close> and
  \<open>project\<close> are mappings with a text entry. Any of them may be missing; where the source
  tests a value for truth (\<open>description\<close>, \<open>assignee\<close>, \<open>project\<close>) a false value counts
  as missing.
\<close>

definition absent_or :: "(pyval \<Rightarrow> bool) \<Rightarrow> (string \<times> pyval) list \<Rightarrow> string \<Rightarrow> bool" where
  "absent_or P d k = (case map_of d k of None \<Rightarrow> True | Some v \<Rightarrow> P v)"

fun named_object :: "string \<Rightarrow> pyval \<Rightarrow> bool" where
  "named_object k (PDict d) = absent_or valid_optional_str d k"
| "named_object k v = False"

fun sanitizable :: "pyval \<Rightarrow> bool" where
  "sanitizable (PStr s) = True"
| "sanitizable (PDict d) = True"
| "sanitizable v = (\<not> truthy v)"

definition falsy_or_named :: "string \<Rightarrow> pyval \<Rightarrow> bool" where
  "falsy_or_named k v = (if truthy v then named_object k v else True)"

fun fields_ok :: "pyval \<Rightarrow> bool" where
  "fields_ok (PDict f) =
     (absent_or valid_optional_str f ''summary'' \<and> absent_or sanitizable f ''description''
      \<and> absent_or (named_object ''name'') f ''status''
      \<and> absent_or (named_object ''name'') f ''priority''
      \<and> absent_or valid_optional_str f ''created''
      \<and> absent_or (falsy_or_named ''displayName'') f ''assignee''
      \<and> absent_or (falsy_or_named ''name'') f ''project'')"
| "fields_ok v = False"

fun raw_issue_ok :: "pyval \<Rightarrow> bool" where
  "raw_issue_ok (PDict d) =
     (absent_or valid_optional_str d ''id'' \<and> absent_or valid_optional_str d ''key''
      \<and> absent_or fields_ok d ''fields'')"
| "raw_issue_ok v = False"

text \<open>
  The fixed paths of the data model: \<open>at_path v ks\<close> follows the keys \<open>ks\<close> through nested
  mappings and is \<open>None\<close> as soon as a key is missing; \<open>path_text\<close> is the text found
  at the end of the path, if any.
\<close>

fun at_path :: "pyval \<Rightarrow> string list \<Rightarrow> pyval option" where
  "at_path v [] = Some v"
| "at_path (PDict d) (k # ks) = (case map_of d k of None \<Rightarrow> None | Some v \<Rightarrow> at_path v ks)"
| "at_path v (k # ks) = None"

definition path_text :: "pyval \<Rightarrow> string list \<Rightarrow> string option" where
  "path_text v ks = (case at_path v ks of Some (PStr s) \<Rightarrow> Some s | _ \<Rightarrow> None)"

section \<open>Reading the persisted file back\<close>









section \<open>What a pattern matches\<close>

text \<open>
  The language of a pattern, without the priorities of the engine: \<open>matches r s\<close> holds
  when the whole of \<open>s\<close> is a match of \<open>r\<close>. A repetition takes any positive number of
  characters of its class.
\<close>

primrec matches :: "re_item list \<Rightarrow> string \<Rightarrow> bool" where
  "matches [] = (\<lambda>s. s = [])"
| "matches (it # r) = (\<lambda>s.
     case it of
       One p \<Rightarrow> (case s of [] \<Rightarrow> False | c # cs \<Rightarrow> p c \<and> matches r cs)
     | PlusGreedy p \<Rightarrow>
         list_ex (\<lambda>n. list_all p (take n s) \<and> matches r (drop n s)) [1 ..< Suc (length s)]
     | PlusLazy p \<Rightarrow>
         list_ex (\<lambda>n. list_all p (take n s) \<and> matches r (drop n s)) [1 ..< Suc (length s)])"

fun item_class :: "re_item \<Rightarrow> char \<Rightarrow> bool" where
  "item_class (One p) = p"
| "item_class (PlusGreedy p) = p"
| "item_class (PlusLazy p) = p"

text \<open>
  A text cut into segments: the ones a substitution keeps and the ones it replaces.
  \<open>source_text\<close> is the text before the substitution, \<open>replace_hits repl\<close> the text after.
\<close>

datatype segment = Keep string | Hit string

fun segment_source :: "segment \<Rightarrow> string" where
  "segment_source (Keep s) = s"
| "segment_source (Hit m) = m"

fun segment_result :: "string \<Rightarrow> segment \<Rightarrow> string" where
  "segment_result repl (Keep s) = s"
| "segment_result repl (Hit m) = repl"

definition source_text :: "segment list \<Rightarrow> string" where
  "source_text segs = concat (map segment_source segs)"

definition replace_hits :: "string \<Rightarrow> segment list \<Rightarrow> string" where
  "replace_hits repl segs = concat (map (segment_result repl) segs)"

section \<open>The scenario of the specification\<close>

definition scenario_markup :: string where
  "scenario_markup = ''<p>Crash on <b>login</b> for bob@example.com</p>''"

definition scenario_raw :: pyval where
  "scenario_raw =
     PDict [(''id'', PStr ''1''), (''key'', PStr ''PRJ-1''),
            (''fields'', PDict [(''summary'', PStr ''Bug''),
                                (''description'', PStr scenario_markup),
                                (''status'', PDict [(''name'', PStr ''Open'')]),
                                (''priority'', PDict [(''name'', PStr ''High'')]),
                                (''created'', PStr ''2024-01-01''),
                                (''assignee'', PDict [(''displayName'', PStr ''Bob'')]),
                                (''project'', PDict [(''name'', PStr ''Core'')])])]"

definition scenario_normalized :: JiraIssue where
  "scenario_normalized =
     \<lparr> id' = Some ''1'', key = Some ''PRJ-1'', summary = Some ''Bug'',
       description = Some ''Crash on login for [REDACTED]'', status = Some ''Open'',
       priority = Some ''High'', created = Some ''2024-01-01'', assignee = Some ''Bob'',
       project = Some ''Core'' \<rparr>"

section \<open>Properties\<close>

subsection \<open>Lemmas on the normalizer\<close>

lemma bind_exn_Inr [simp]: "bind_exn (Inr v) f = f v"
  by (simp add: bind_exn_def)

lemma bind_exn_Inl [simp]: "bind_exn (Inl e) f = Inl e"
  by (simp add: bind_exn_def)

lemma bind_exn_eq_Inr: "bind_exn m f = Inr y \<longleftrightarrow> (\<exists>v. m = Inr v \<and> f v = Inr y)"
  by (cases m) simp_all

lemma clean_text_str_total: "\<exists>t. clean_text soup (PStr s) = Inr t"
  by (cases "soup (PStr s)") (simp_all add: clean_text_def)

lemma clean_text_sanitizable: "sanitizable v \<Longrightarrow> \<exists>t. clean_text soup v = Inr t"
  using clean_text_str_total by (cases v) (auto simp: clean_text_def)

lemma clean_text_falsy: "\<not> truthy v \<Longrightarrow> clean_text soup v = Inr []"
  by (simp add: clean_text_def)

lemma get_text_valid:
  "absent_or valid_optional_str d k \<Longrightarrow>
     \<exists>v. py_get (PDict d) k PNone = Inr v \<and> valid_optional_str v \<and> (map_of d k = None \<longrightarrow> v = PNone)"
  by (simp add: absent_or_def split: option.splits)

lemma get_nested_valid:
  assumes "absent_or (named_object n) f k"
  shows "\<exists>v. bind_exn (py_get (PDict f) k (PDict [])) (\<lambda>s. py_get s n PNone) = Inr v
           \<and> valid_optional_str v \<and> (map_of f k = None \<longrightarrow> v = PNone)"
proof (cases "map_of f k")
  case None
  then show ?thesis by simp
next
  case (Some s)
  with assms have "named_object n s" by (simp add: absent_or_def)
  then obtain d where s: "s = PDict d" and "absent_or valid_optional_str d n"
    by (cases s) simp_all
  then show ?thesis using Some by (simp add: absent_or_def split: option.splits)
qed

lemma get_guarded_valid:
  assumes "absent_or (falsy_or_named n) f k"
  shows "\<exists>v. bind_exn (py_get (PDict f) k PNone) (\<lambda>a.
                 if truthy a
                 then bind_exn (py_get (PDict f) k (PDict [])) (\<lambda>a'. py_get a' n PNone)
                 else Inr PNone) = Inr v
           \<and> valid_optional_str v \<and> (map_of f k = None \<longrightarrow> v = PNone)"
proof (cases "map_of f k")
  case None
  then show ?thesis by simp
next
  case (Some a)
  show ?thesis
  proof (cases "truthy a")
    case False
    then show ?thesis using Some by simp
  next
    case True
    with assms Some have "named_object n a" by (simp add: absent_or_def falsy_or_named_def)
    then obtain d where "a = PDict d" and "absent_or valid_optional_str d n"
      by (cases a) simp_all
    then show ?thesis using Some True
      by (simp add: absent_or_def split: option.splits)
  qed
qed

lemma new_JiraIssue_valid:
  assumes "valid_optional_str a" "valid_optional_str b" "valid_optional_str c"
    "valid_optional_str d" "valid_optional_str e" "valid_optional_str f"
    "valid_optional_str g" "valid_optional_str h" "valid_optional_str i"
  shows "new_JiraIssue a b c d e f g h i =
     Inr \<lparr> id' = optional_str a, key = optional_str b, summary = optional_str c,
           description = optional_str d, status = optional_str e, priority = optional_str f,
           created = optional_str g, assignee = optional_str h, project = optional_str i \<rparr>"
  using assms by (simp add: new_JiraIssue_def)

lemma new_JiraIssue_Inr:
  assumes "new_JiraIssue a b c d e f g h i = Inr item"
  shows "item = \<lparr> id' = optional_str a, key = optional_str b, summary = optional_str c,
           description = optional_str d, status = optional_str e, priority = optional_str f,
           created = optional_str g, assignee = optional_str h, project = optional_str i \<rparr>"
  using assms by (simp add: new_JiraIssue_def Let_def split: if_splits)


lemma get_description_ok:
  assumes "absent_or sanitizable f ''description''"
  shows "\<exists>t. bind_exn (py_get (PDict f) ''description'' PNone) (clean_text soup) = Inr t"
proof (cases "map_of f ''description''")
  case None
  then show ?thesis by (simp add: clean_text_falsy)
next
  case (Some v)
  with assms have "sanitizable v" by (simp add: absent_or_def)
  from clean_text_sanitizable [OF this] show ?thesis using Some by simp
qed

lemma normalize_fields_ok:
  assumes "fields_ok (PDict f)" "valid_optional_str v_id" "valid_optional_str v_key"
  shows "\<exists>item.
     bind_exn (py_get (PDict f) ''summary'' PNone) (\<lambda>v_summary.
     bind_exn (bind_exn (py_get (PDict f) ''description'' PNone) (clean_text soup)) (\<lambda>v_description.
     bind_exn (bind_exn (py_get (PDict f) ''status'' (PDict [])) (\<lambda>s. py_get s ''name'' PNone))
       (\<lambda>v_status.
     bind_exn (bind_exn (py_get (PDict f) ''priority'' (PDict [])) (\<lambda>p. py_get p ''name'' PNone))
       (\<lambda>v_priority.
     bind_exn (py_get (PDict f) ''created'' PNone) (\<lambda>v_created.
     bind_exn
       (bind_exn (py_get (PDict f) ''assignee'' PNone) (\<lambda>a.
          if truthy a
          then bind_exn (py_get (PDict f) ''assignee'' (PDict []))
                 (\<lambda>a'. py_get a' ''displayName'' PNone)
          else Inr PNone))
       (\<lambda>v_assignee.
     bind_exn
       (bind_exn (py_get (PDict f) ''project'' PNone) (\<lambda>p.
          if truthy p
          then bind_exn (py_get (PDict f) ''project'' (PDict []))
                 (\<lambda>p'. py_get p' ''name'' PNone)
          else Inr PNone))
       (\<lambda>v_project.
     new_JiraIssue v_id v_key v_summary (PStr v_description) v_status v_priority v_created
       v_assignee v_project))))))) = Inr item"
proof -
  from assms(1) obtain v_summary where 1: "py_get (PDict f) ''summary'' PNone = Inr v_summary"
    and v1: "valid_optional_str v_summary"
    using get_text_valid [of f "''summary''"] by auto
  from assms(1) obtain t where 2:
    "bind_exn (py_get (PDict f) ''description'' PNone) (clean_text soup) = Inr t"
    using get_description_ok [of f soup] by auto
  from assms(1) obtain v_status where 3:
    "bind_exn (py_get (PDict f) ''status'' (PDict [])) (\<lambda>s. py_get s ''name'' PNone) = Inr v_status"
    and v3: "valid_optional_str v_status"
    using get_nested_valid [of "''name''" f "''status''"] by auto
  from assms(1) obtain v_priority where 4:
    "bind_exn (py_get (PDict f) ''priority'' (PDict [])) (\<lambda>s. py_get s ''name'' PNone) = Inr v_priority"
    and v4: "valid_optional_str v_priority"
    using get_nested_valid [of "''name''" f "''priority''"] by auto
  from assms(1) obtain v_created where 5: "py_get (PDict f) ''created'' PNone = Inr v_created"
    and v5: "valid_optional_str v_created"
    using get_text_valid [of f "''created''"] by auto
  from assms(1) obtain v_assignee where 6:
    "bind_exn (py_get (PDict f) ''assignee'' PNone) (\<lambda>a.
          if truthy a
          then bind_exn (py_get (PDict f) ''assignee'' (PDict []))
                 (\<lambda>a'. py_get a' ''displayName'' PNone)
          else Inr PNone) = Inr v_assignee"
    and v6: "valid_optional_str v_assignee"
    using get_guarded_valid [of "''displayName''" f "''assignee''"] by auto
  from assms(1) obtain v_project where 7:
    "bind_exn (py_get (PDict f) ''project'' PNone) (\<lambda>a.
          if truthy a
          then bind_exn (py_get (PDict f) ''project'' (PDict []))
                 (\<lambda>a'. py_get a' ''name'' PNone)
          else Inr PNone) = Inr v_project"
    and v7: "valid_optional_str v_project"
    using get_guarded_valid [of "''name''" f "''project''"] by auto
  show ?thesis
    unfolding 1 2 3 4 5 6 7 bind_exn_Inr
    using new_JiraIssue_valid [OF assms(2,3) v1 _ v3 v4 v5 v6 v7, of "PStr t"] by simp
qed

lemma normalize_issue_total:
  assumes "raw_issue_ok issue"
  shows "\<exists>item. normalize_issue soup issue = Inr item"
proof -
  from assms obtain d where d: "issue = PDict d" by (cases issue) simp_all
  from assms d obtain v_id where 1: "py_get (PDict d) ''id'' PNone = Inr v_id"
    and v1: "valid_optional_str v_id"
    using get_text_valid [of d "''id''"] by auto
  from assms d obtain v_key where 2: "py_get (PDict d) ''key'' PNone = Inr v_key"
    and v2: "valid_optional_str v_key"
    using get_text_valid [of d "''key''"] by auto
  from assms d obtain f where 3: "py_get (PDict d) ''fields'' (PDict []) = Inr (PDict f)"
    and f: "fields_ok (PDict f)"
  proof (cases "map_of d ''fields''")
    case None
    then show ?thesis using that [of "[]"] by (simp add: absent_or_def)
  next
    case (Some v)
    with assms d have "fields_ok v" by (simp add: absent_or_def)
    then obtain f where "v = PDict f" by (cases v) simp_all
    then show ?thesis using that [of f] Some \<open>fields_ok v\<close> by simp
  qed
  show ?thesis
    unfolding normalize_issue_def d 1 2 3 bind_exn_Inr
    by (rule normalize_fields_ok [OF f v1 v2])
qed


lemma normalize_issue_Inr_iff:
  "normalize_issue soup issue = Inr item \<longleftrightarrow>
     (\<exists>fields v_id v_key v_summary t v_status v_priority v_created v_assignee v_project.
        py_get issue ''fields'' (PDict []) = Inr fields
      \<and> py_get issue ''id'' PNone = Inr v_id
      \<and> py_get issue ''key'' PNone = Inr v_key
      \<and> py_get fields ''summary'' PNone = Inr v_summary
      \<and> bind_exn (py_get fields ''description'' PNone) (clean_text soup) = Inr t
      \<and> bind_exn (py_get fields ''status'' (PDict [])) (\<lambda>s. py_get s ''name'' PNone) = Inr v_status
      \<and> bind_exn (py_get fields ''priority'' (PDict [])) (\<lambda>s. py_get s ''name'' PNone) = Inr v_priority
      \<and> py_get fields ''created'' PNone = Inr v_created
      \<and> bind_exn (py_get fields ''assignee'' PNone) (\<lambda>a.
          if truthy a
          then bind_exn (py_get fields ''assignee'' (PDict []))
                 (\<lambda>a'. py_get a' ''displayName'' PNone)
          else Inr PNone) = Inr v_assignee
      \<and> bind_exn (py_get fields ''project'' PNone) (\<lambda>a.
          if truthy a
          then bind_exn (py_get fields ''project'' (PDict []))
                 (\<lambda>a'. py_get a' ''name'' PNone)
          else Inr PNone) = Inr v_project
      \<and> new_JiraIssue v_id v_key v_summary (PStr t) v_status v_priority v_created
            v_assignee v_project = Inr item)"
  unfolding normalize_issue_def bind_exn_eq_Inr [where y = item] by blast

lemma py_get_Inr_dict: "py_get obj k dflt = Inr v \<Longrightarrow> \<exists>d. obj = PDict d"
  by (cases obj) simp_all

lemma direct_path:
  assumes "py_get (PDict d) k PNone = Inr v"
  shows "optional_str v = path_text (PDict d) [k]"
  using assms by (cases v) (auto simp: path_text_def split: option.splits)

lemma nested_path:
  assumes "bind_exn (py_get (PDict f) k (PDict [])) (\<lambda>s. py_get s n PNone) = Inr v"
  shows "optional_str v = path_text (PDict f) [k, n]"
proof (cases "map_of f k")
  case None
  with assms show ?thesis by (auto simp: path_text_def)
next
  case (Some s)
  with assms have "py_get s n PNone = Inr v" by simp
  then obtain d where "s = PDict d" "py_get (PDict d) n PNone = Inr v"
    using py_get_Inr_dict by blast
  with Some direct_path [of d n v] show ?thesis
    by (simp add: path_text_def)
qed

lemma guarded_path:
  assumes "bind_exn (py_get (PDict f) k PNone) (\<lambda>a.
          if truthy a
          then bind_exn (py_get (PDict f) k (PDict [])) (\<lambda>a'. py_get a' n PNone)
          else Inr PNone) = Inr v"
  shows "optional_str v = path_text (PDict f) [k, n]"
proof (cases "map_of f k")
  case None
  with assms show ?thesis by (auto simp: path_text_def)
next
  case (Some a)
  show ?thesis
  proof (cases "truthy a")
    case True
    with assms Some have "bind_exn (py_get (PDict f) k (PDict [])) (\<lambda>a'. py_get a' n PNone) = Inr v"
      by simp
    then show ?thesis by (rule nested_path)
  next
    case False
    with assms Some have "v = PNone" by simp
    moreover from False have "at_path a [n] = None" by (cases a) simp_all
    ultimately show ?thesis using Some by (simp add: path_text_def)
  qed
qed

lemma path_via_fields:
  assumes "py_get issue ''fields'' (PDict []) = Inr (PDict f)" "ks \<noteq> []"
  shows "path_text issue (''fields'' # ks) = path_text (PDict f) ks"
proof -
  from assms(1) obtain d where d: "issue = PDict d" using py_get_Inr_dict by blast
  from assms(2) obtain k ks' where ks: "ks = k # ks'" by (cases ks) simp_all
  show ?thesis using assms(1) unfolding d ks
    by (cases "map_of d ''fields''") (auto simp: path_text_def)
qed

lemma normalize_issue_paths:
  assumes "normalize_issue soup issue = Inr item"
  shows "id' item = path_text issue [''id'']"
    and "key item = path_text issue [''key'']"
    and "summary item = path_text issue [''fields'', ''summary'']"
    and "status item = path_text issue [''fields'', ''status'', ''name'']"
    and "priority item = path_text issue [''fields'', ''priority'', ''name'']"
    and "created item = path_text issue [''fields'', ''created'']"
    and "assignee item = path_text issue [''fields'', ''assignee'', ''displayName'']"
    and "project item = path_text issue [''fields'', ''project'', ''name'']"
proof -
  from assms obtain fields v_id v_key v_summary t v_status v_priority v_created v_assignee
      v_project where
        g0: "py_get issue ''fields'' (PDict []) = Inr fields"
    and g1: "py_get issue ''id'' PNone = Inr v_id"
    and g2: "py_get issue ''key'' PNone = Inr v_key"
    and g3: "py_get fields ''summary'' PNone = Inr v_summary"
    and g5: "bind_exn (py_get fields ''status'' (PDict [])) (\<lambda>s. py_get s ''name'' PNone) = Inr v_status"
    and g6: "bind_exn (py_get fields ''priority'' (PDict [])) (\<lambda>s. py_get s ''name'' PNone) = Inr v_priority"
    and g7: "py_get fields ''created'' PNone = Inr v_created"
    and g8: "bind_exn (py_get fields ''assignee'' PNone) (\<lambda>a.
          if truthy a
          then bind_exn (py_get fields ''assignee'' (PDict []))
                 (\<lambda>a'. py_get a' ''displayName'' PNone)
          else Inr PNone) = Inr v_assignee"
    and g9: "bind_exn (py_get fields ''project'' PNone) (\<lambda>a.
          if truthy a
          then bind_exn (py_get fields ''project'' (PDict []))
                 (\<lambda>a'. py_get a' ''name'' PNone)
          else Inr PNone) = Inr v_project"
    and new: "new_JiraIssue v_id v_key v_summary (PStr t) v_status v_priority v_created
            v_assignee v_project = Inr item"
    unfolding normalize_issue_Inr_iff by blast
  from g1 obtain d where d: "issue = PDict d" using py_get_Inr_dict by blast
  from g3 obtain f where f: "fields = PDict f" using py_get_Inr_dict by blast
  note item = new_JiraIssue_Inr [OF new]
  note via = path_via_fields [OF g0 [unfolded f]]
  show "id' item = path_text issue [''id'']"
    using direct_path [OF g1 [unfolded d]] by (simp add: item d)
  show "key item = path_text issue [''key'']"
    using direct_path [OF g2 [unfolded d]] by (simp add: item d)
  show "summary item = path_text issue [''fields'', ''summary'']"
    using direct_path [OF g3 [unfolded f]] by (simp add: item via)
  show "status item = path_text issue [''fields'', ''status'', ''name'']"
    using nested_path [OF g5 [unfolded f]] by (simp add: item via)
  show "priority item = path_text issue [''fields'', ''priority'', ''name'']"
    using nested_path [OF g6 [unfolded f]] by (simp add: item via)
  show "created item = path_text issue [''fields'', ''created'']"
    using direct_path [OF g7 [unfolded f]] by (simp add: item via)
  show "assignee item = path_text issue [''fields'', ''assignee'', ''displayName'']"
    using guarded_path [OF g8 [unfolded f]] by (simp add: item via)
  show "project item = path_text issue [''fields'', ''project'', ''name'']"
    using guarded_path [OF g9 [unfolded f]] by (simp add: item via)
qed

lemma normalize_issue_description:
  assumes "normalize_issue soup issue = Inr item"
  shows "\<exists>fields t. py_get issue ''fields'' (PDict []) = Inr fields
           \<and> bind_exn (py_get fields ''description'' PNone) (clean_text soup) = Inr t
           \<and> description item = Some t"
proof -
  from assms obtain fields v_id v_key v_summary t v_status v_priority v_created v_assignee
      v_project where
        g0: "py_get issue ''fields'' (PDict []) = Inr fields"
    and g4: "bind_exn (py_get fields ''description'' PNone) (clean_text soup) = Inr t"
    and new: "new_JiraIssue v_id v_key v_summary (PStr t) v_status v_priority v_created
            v_assignee v_project = Inr item"
    unfolding normalize_issue_Inr_iff by blast
  from new_JiraIssue_Inr [OF new] have "description item = Some t" by simp
  with g0 g4 show ?thesis by blast
qed

lemma path_prefix_None:
  "at_path v ks = None \<Longrightarrow> at_path v (ks @ ks') = None"
  by (induction v ks rule: at_path.induct) (auto split: option.splits)

text \<open>
  Claim C4. A well-formed raw issue always normalizes, and in every normalized issue the
  fields \<open>status\<close>, \<open>priority\<close>, \<open>assignee\<close> and \<open>project\<close> are the text at the end of
  their fixed path (\<open>fields.status.name\<close>, \<open>fields.priority.name\<close>,
  \<open>fields.assignee.displayName\<close>, \<open>fields.project.name\<close>). Hence, when the key
  \<open>fields\<close> or the key of the parent object is missing, the flat field is the absence
  marker \<open>None\<close> and no exception is raised for the missing key.
\<close>
theorem missing_parent_is_absence:
  "(raw_issue_ok issue \<longrightarrow> (\<exists>item. normalize_issue soup issue = Inr item))
   \<and> (\<forall>item. normalize_issue soup issue = Inr item \<longrightarrow>
         status item = path_text issue [''fields'', ''status'', ''name'']
       \<and> priority item = path_text issue [''fields'', ''priority'', ''name'']
       \<and> assignee item = path_text issue [''fields'', ''assignee'', ''displayName'']
       \<and> project item = path_text issue [''fields'', ''project'', ''name'']
       \<and> (at_path issue [''fields'', ''status''] = None \<longrightarrow> status item = None)
       \<and> (at_path issue [''fields'', ''priority''] = None \<longrightarrow> priority item = None)
       \<and> (at_path issue [''fields'', ''assignee''] = None \<longrightarrow> assignee item = None)
       \<and> (at_path issue [''fields'', ''project''] = None \<longrightarrow> project item = None)
       \<and> (at_path issue [''fields''] = None \<longrightarrow>
             summary item = None \<and> status item = None \<and> priority item = None
           \<and> created item = None \<and> assignee item = None \<and> project item = None))"
proof (intro conjI allI impI)
  assume "raw_issue_ok issue"
  then show "\<exists>item. normalize_issue soup issue = Inr item" by (rule normalize_issue_total)
next
  fix item assume ok: "normalize_issue soup issue = Inr item"
  note paths = normalize_issue_paths [OF ok]
  show "status item = path_text issue [''fields'', ''status'', ''name'']" by (rule paths)
  show "priority item = path_text issue [''fields'', ''priority'', ''name'']" by (rule paths)
  show "assignee item = path_text issue [''fields'', ''assignee'', ''displayName'']" by (rule paths)
  show "project item = path_text issue [''fields'', ''project'', ''name'']" by (rule paths)
  {
    assume "at_path issue [''fields'', ''status''] = None"
    from path_prefix_None [OF this, of "[''name'']"] show "status item = None"
      by (simp add: paths path_text_def)
  }
  {
    assume "at_path issue [''fields'', ''priority''] = None"
    from path_prefix_None [OF this, of "[''name'']"] show "priority item = None"
      by (simp add: paths path_text_def)
  }
  {
    assume "at_path issue [''fields'', ''assignee''] = None"
    from path_prefix_None [OF this, of "[''displayName'']"] show "assignee item = None"
      by (simp add: paths path_text_def)
  }
  {
    assume "at_path issue [''fields'', ''project''] = None"
    from path_prefix_None [OF this, of "[''name'']"] show "project item = None"
      by (simp add: paths path_text_def)
  }
  {
    assume none: "at_path issue [''fields''] = None"
    from path_prefix_None [OF none, of "[''summary'']"] show "summary item = None"
      by (simp add: paths path_text_def)
    from path_prefix_None [OF none, of "[''status'', ''name'']"] show "status item = None"
      by (simp add: paths path_text_def)
    from path_prefix_None [OF none, of "[''priority'', ''name'']"] show "priority item = None"
      by (simp add: paths path_text_def)
    from path_prefix_None [OF none, of "[''created'']"] show "created item = None"
      by (simp add: paths path_text_def)
    from path_prefix_None [OF none, of "[''assignee'', ''displayName'']"] show "assignee item = None"
      by (simp add: paths path_text_def)
    from path_prefix_None [OF none, of "[''project'', ''name'']"] show "project item = None"
      by (simp add: paths path_text_def)
  }
qed

theorem missing_parent_is_absence_witness:
  "raw_issue_ok (PDict [(''id'', PStr ''7''), (''fields'', PDict [(''summary'', PStr ''S'')])])
   \<and> normalize_issue (\<lambda>v. Inl (Fault [])) (PDict [(''id'', PStr ''7''), (''fields'', PDict [(''summary'', PStr ''S'')])])
      = Inr \<lparr> id' = Some ''7'', key = None, summary = Some ''S'', description = Some [],
              status = None, priority = None, created = None, assignee = None, project = None \<rparr>"
  using missing_parent_is_absence [of "PDict [(''id'', PStr ''7''), (''fields'', PDict [(''summary'', PStr ''S'')])]" "\<lambda>v. Inl (Fault [])"]
  by (simp add: absent_or_def normalize_issue_def clean_text_def new_JiraIssue_def)


text \<open>
  The claim is about missing keys. A key that is there with the value \<open>None\<close> is another
  matter: \<open>assignee\<close> and \<open>project\<close> are tested for truth and give \<open>None\<close>, but for
  \<open>status\<close> and \<open>priority\<close> the default of \<open>get\<close> does not apply and the second \<open>get\<close>
  raises.
\<close>

lemma null_priority_raises:
  "normalize_issue soup (PDict [(''fields'', PDict [(''priority'', PNone)])])
     = Inl (AttributeError ([CHR 0x27] @ ''NoneType'' @ [CHR 0x27] @ '' object has no attribute ''
                             @ [CHR 0x27] @ ''get'' @ [CHR 0x27]))"
  by (simp add: normalize_issue_def clean_text_def)

lemma null_assignee_is_absence:
  "normalize_issue soup (PDict [(''fields'', PDict [(''assignee'', PNone)])])
     = Inr \<lparr> id' = None, key = None, summary = None, description = Some [], status = None,
             priority = None, created = None, assignee = None, project = None \<rparr>"
  by (simp add: normalize_issue_def clean_text_def new_JiraIssue_def)

lemma normalize_loop_iff:
  "normalize_loop soup xs acc = Inr out \<longleftrightarrow>
     (\<exists>ys. out = acc @ ys \<and> list_all2 (\<lambda>x y. normalize_issue soup x = Inr y) xs ys)"
proof (induction xs arbitrary: acc)
  case Nil
  then show ?case by auto
next
  case (Cons x xs)
  show ?case
    by (auto simp: bind_exn_eq_Inr Cons.IH list_all2_Cons1)
qed

lemma normalize_all_total:
  "list_all raw_issue_ok xs \<Longrightarrow> \<exists>ys. list_all2 (\<lambda>x y. normalize_issue soup x = Inr y) xs ys"
proof (induction xs)
  case Nil
  then show ?case by simp
next
  case (Cons x xs)
  then obtain y ys where "normalize_issue soup x = Inr y"
    and "list_all2 (\<lambda>x y. normalize_issue soup x = Inr y) xs ys"
    using normalize_issue_total [of x soup] by auto
  then have "list_all2 (\<lambda>x y. normalize_issue soup x = Inr y) (x # xs) (y # ys)" by simp
  then show ?case by blast
qed

lemma normalize_issues_list_iff:
  "normalize_issues soup (PList xs) = Inr out \<longleftrightarrow>
     list_all2 (\<lambda>x y. normalize_issue soup x = Inr y) xs out"
  by (simp add: normalize_issues_def normalize_loop_iff)

text \<open>
  Claim C3. For a list of \<open>n\<close> raw issues, \<open>normalize_issues\<close> returns (whenever it returns,
  and it does return on well-formed raw issues) a list of exactly \<open>n\<close> normalized issues, and
  the issue at index \<open>i\<close> of the result is the normalization of the raw issue at index \<open>i\<close>.
\<close>
theorem normalize_issues_length_order:
  "(list_all raw_issue_ok xs \<longrightarrow> (\<exists>out. normalize_issues soup (PList xs) = Inr out))
   \<and> (\<forall>out. normalize_issues soup (PList xs) = Inr out \<longrightarrow>
          length out = length xs
        \<and> (\<forall>i < length xs. normalize_issue soup (xs ! i) = Inr (out ! i)))"
  using normalize_all_total [of xs soup]
  by (auto simp: normalize_issues_list_iff list_all2_conv_all_nth)

theorem normalize_issues_length_order_witness:
  "list_all raw_issue_ok [PDict [(''id'', PStr ''1'')], PDict [(''id'', PStr ''2'')]]
   \<and> (\<exists>out. normalize_issues (\<lambda>v. Inl (Fault [])) (PList [PDict [(''id'', PStr ''1'')], PDict [(''id'', PStr ''2'')]]) = Inr out
         \<and> length out = 2 \<and> id' (out ! 0) = Some ''1'' \<and> id' (out ! 1) = Some ''2'')"
  using normalize_issues_length_order [of "[PDict [(''id'', PStr ''1'')], PDict [(''id'', PStr ''2'')]]" "\<lambda>v. Inl (Fault [])"]
  by (simp add: absent_or_def normalize_issues_def normalize_issue_def clean_text_def new_JiraIssue_def)

text \<open>
  Claim C10. The \<open>description\<close> of a normalized issue is always a string, never \<open>None\<close>;
  when \<open>fields.description\<close> is missing or is \<open>None\<close>, it is the empty string.
\<close>
theorem description_is_always_text:
  "(raw_issue_ok issue \<longrightarrow> (\<exists>item. normalize_issue soup issue = Inr item))
   \<and> (\<forall>item. normalize_issue soup issue = Inr item \<longrightarrow>
          (\<exists>t. description item = Some t)
        \<and> (at_path issue [''fields'', ''description''] = None
             \<or> at_path issue [''fields'', ''description''] = Some PNone
           \<longrightarrow> description item = Some []))"
proof (intro conjI allI impI)
  assume "raw_issue_ok issue"
  then show "\<exists>item. normalize_issue soup issue = Inr item" by (rule normalize_issue_total)
next
  fix item assume ok: "normalize_issue soup issue = Inr item"
  from normalize_issue_description [OF ok] obtain fields t where
        g0: "py_get issue ''fields'' (PDict []) = Inr fields"
    and g4: "bind_exn (py_get fields ''description'' PNone) (clean_text soup) = Inr t"
    and t: "description item = Some t"
    by blast
  from t show "\<exists>t. description item = Some t" by blast
  assume absent: "at_path issue [''fields'', ''description''] = None
     \<or> at_path issue [''fields'', ''description''] = Some PNone"
  from g0 obtain d where d: "issue = PDict d" using py_get_Inr_dict by blast
  from g4 obtain v where v: "py_get fields ''description'' PNone = Inr v"
    and c: "clean_text soup v = Inr t"
    by (auto simp: bind_exn_eq_Inr)
  from v obtain f where f: "fields = PDict f" using py_get_Inr_dict by blast
  from absent g0 v have "v = PNone"
    unfolding d f by (auto split: option.splits)
  with c have "t = []" by (simp add: clean_text_def)
  with t show "description item = Some []" by simp
qed

theorem description_is_always_text_witness:
  "raw_issue_ok (PDict [(''key'', PStr ''K-1''), (''fields'', PDict [(''description'', PNone)])])
   \<and> normalize_issue (\<lambda>v. Inl (Fault [])) (PDict [(''key'', PStr ''K-1''), (''fields'', PDict [(''description'', PNone)])])
      = Inr \<lparr> id' = None, key = Some ''K-1'', summary = None, description = Some [],
              status = None, priority = None, created = None, assignee = None, project = None \<rparr>"
  using description_is_always_text [of "PDict [(''key'', PStr ''K-1''), (''fields'', PDict [(''description'', PNone)])]" "\<lambda>v. Inl (Fault [])"]
  by (simp add: absent_or_def normalize_issue_def clean_text_def new_JiraIssue_def)

text \<open>
  Claim C9. When the query, the normalization and the optional write all succeed,
  \<open>fetch_jira_tokens\<close> returns the response with \<open>success = True\<close>, \<open>issues\<close> the normalized
  list and \<open>count\<close> its length; the list follows the order of the raw issues the query
  returned.
\<close>

theorem fetch_success_result:
  assumes "fetch_jira_issues jira_client (jql_query request) (limit request) = Inr raw"
    and "normalize_issues soup raw = Inr normalized"
    and "save_to_file request \<longrightarrow>
           fst (save_to_jsonl dump normalized (filename request) fs) = Inr ()"
  shows "\<exists>fs'. fetch_jira_tokens soup dump jira_client fs request =
            (Inr \<lparr> count = int (length normalized), issues = normalized, success = True \<rparr>, fs')
       \<and> (\<forall>xs. py_iter raw = Inr xs \<longrightarrow>
             length normalized = length xs
           \<and> (\<forall>i < length xs. normalize_issue soup (xs ! i) = Inr (normalized ! i)))"
proof -
  have "\<exists>fs'. fetch_jira_tokens soup dump jira_client fs request =
            (Inr \<lparr> count = int (length normalized), issues = normalized, success = True \<rparr>, fs')"
  proof (cases "save_to_file request")
    case False
    with assms(1,2) show ?thesis by (simp add: fetch_jira_tokens_def)
  next
    case True
    with assms(3) obtain fs' where
      "save_to_jsonl dump normalized (filename request) fs = (Inr (), fs')"
      by (cases "save_to_jsonl dump normalized (filename request) fs") auto
    with True assms(1,2) show ?thesis by (simp add: fetch_jira_tokens_def)
  qed
  moreover have "\<forall>xs. py_iter raw = Inr xs \<longrightarrow>
             length normalized = length xs
           \<and> (\<forall>i < length xs. normalize_issue soup (xs ! i) = Inr (normalized ! i))"
    using assms(2)
    by (auto simp: normalize_issues_def normalize_loop_iff list_all2_conv_all_nth)
  ultimately show ?thesis by blast
qed

theorem fetch_success_result_witness:
  "fetch_jira_tokens (\<lambda>v. Inl (Fault [])) dump_ok
     (Some (\<lambda>jql lim. Inr (PDict [(''issues'', PList [PDict [(''id'', PStr ''1'')], PDict [(''id'', PStr ''2'')]])])))
     sound_disk
     \<lparr> jql_query = ''project = CORE'', limit = 50, save_to_file = False, filename = ''jira_data.jsonl'' \<rparr>
   = (Inr \<lparr> count = 2,
            issues = [\<lparr> id' = Some ''1'', key = None, summary = None, description = Some [],
                        status = None, priority = None, created = None, assignee = None, project = None \<rparr>,
                      \<lparr> id' = Some ''2'', key = None, summary = None, description = Some [],
                        status = None, priority = None, created = None, assignee = None, project = None \<rparr>],
            success = True \<rparr>,
      sound_disk)"
proof -
  let ?client = "Some (\<lambda>jql lim. Inr (PDict [(''issues'', PList [PDict [(''id'', PStr ''1'')], PDict [(''id'', PStr ''2'')]])]))"
  let ?request = "\<lparr> jql_query = ''project = CORE'', limit = 50, save_to_file = False, filename = ''jira_data.jsonl'' \<rparr>"
  let ?raw = "PList [PDict [(''id'', PStr ''1'')], PDict [(''id'', PStr ''2'')]]"
  let ?out = "[\<lparr> id' = Some ''1'', key = None, summary = None, description = Some [],
                        status = None, priority = None, created = None, assignee = None, project = None \<rparr>,
                      \<lparr> id' = Some ''2'', key = None, summary = None, description = Some [],
                        status = None, priority = None, created = None, assignee = None, project = None \<rparr>]"
  have 1: "fetch_jira_issues ?client (jql_query ?request) (limit ?request) = Inr ?raw"
    by (simp add: fetch_jira_issues_def)
  have 2: "normalize_issues (\<lambda>v. Inl (Fault [])) ?raw = Inr ?out"
    by (simp add: normalize_issues_def normalize_issue_def clean_text_def new_JiraIssue_def)
  have 3: "save_to_file ?request \<longrightarrow>
      fst (save_to_jsonl dump_ok ?out (filename ?request) sound_disk) = Inr ()"
    by simp
  from fetch_success_result [OF 1 2 3] 1 2 show ?thesis
    by (simp add: fetch_jira_tokens_def)
qed

text \<open>
  Claim C1. Whichever stage raises (the query, the normalization or the write),
  \<open>fetch_jira_tokens\<close> returns no response but the one \<open>HTTPException\<close> with status 500
  and the description of that exception as detail. When the query or the normalization
  raises, the file system is left as it was, whatever \<open>save_to_file\<close> says; so it is when
  the file cannot be opened.
\<close>

theorem fetch_failure_is_one_http_error:
  "(\<forall>e. fetch_jira_issues jira_client (jql_query request) (limit request) = Inl e \<longrightarrow>
        fetch_jira_tokens soup dump jira_client fs request
          = (Inl (HTTPException 500 (str_exn e)), fs))
   \<and> (\<forall>raw e. fetch_jira_issues jira_client (jql_query request) (limit request) = Inr raw
          \<and> normalize_issues soup raw = Inl e \<longrightarrow>
        fetch_jira_tokens soup dump jira_client fs request
          = (Inl (HTTPException 500 (str_exn e)), fs))
   \<and> (\<forall>raw normalized e fs'.
          fetch_jira_issues jira_client (jql_query request) (limit request) = Inr raw
          \<and> normalize_issues soup raw = Inr normalized
          \<and> save_to_file request
          \<and> save_to_jsonl dump normalized (filename request) fs = (Inl e, fs') \<longrightarrow>
        fetch_jira_tokens soup dump jira_client fs request
          = (Inl (HTTPException 500 (str_exn e)), fs'))
   \<and> (\<forall>raw normalized e.
          fetch_jira_issues jira_client (jql_query request) (limit request) = Inr raw
          \<and> normalize_issues soup raw = Inr normalized
          \<and> save_to_file request
          \<and> open_fault fs (filename request) = Some e \<longrightarrow>
        fetch_jira_tokens soup dump jira_client fs request
          = (Inl (HTTPException 500 (str_exn e)), fs))"
  by (auto simp: fetch_jira_tokens_def save_to_jsonl_def split: option.splits)

theorem fetch_failure_is_one_http_error_witness:
  "fetch_jira_tokens (\<lambda>v. Inl (Fault [])) dump_ok
     (Some (\<lambda>jql lim. Inl (Fault ''connection refused'')))
     sound_disk
     \<lparr> jql_query = ''project = CORE'', limit = 50, save_to_file = True, filename = ''jira_data.jsonl'' \<rparr>
   = (Inl (HTTPException 500 ''connection refused''), sound_disk)"
  using fetch_failure_is_one_http_error [of
     "Some (\<lambda>jql lim. Inl (Fault ''connection refused''))"
     "\<lparr> jql_query = ''project = CORE'', limit = 50, save_to_file = True, filename = ''jira_data.jsonl'' \<rparr>"
     "\<lambda>v. Inl (Fault [])" dump_ok sound_disk]
  by (simp add: fetch_jira_issues_def)

subsection \<open>The sanitizer\<close>

lemma hex_digit_cases:
  assumes "(n::nat) < 16"
  obtains "n = 0" | "n = 1" | "n = 2" | "n = 3" | "n = 4" | "n = 5" | "n = 6" | "n = 7"
    | "n = 8" | "n = 9" | "n = 10" | "n = 11" | "n = 12" | "n = 13" | "n = 14" | "n = 15"
  using assms by (auto simp: less_Suc_eq numeral_eq_Suc)

lemma hex_digit_printable:
  assumes "n < 16"
  shows "printable (''0123456789abcdef'' ! n)"
  using assms by (rule hex_digit_cases) (simp_all add: printable_def)

lemma dec_digit_printable:
  assumes "n < 10"
  shows "printable (''0123456789'' ! n)"
proof -
  from assms have "n < 16" by simp
  then show ?thesis
    by (rule hex_digit_cases) (use assms in \<open>simp_all add: printable_def\<close>)
qed

lemma show_nat_printable: "list_all printable (show_nat n)"
proof (induction n rule: show_nat.induct)
  case (1 n)
  show ?case
  proof (cases "n < 10")
    case True
    then show ?thesis using dec_digit_printable [of n] by (subst show_nat.simps) simp
  next
    case False
    then show ?thesis using "1.IH" dec_digit_printable [of "n mod 10"]
      by (subst show_nat.simps) simp
  qed
qed

lemma show_int_printable: "list_all printable (show_int i)"
  using show_nat_printable by (simp add: show_int_def printable_def)

lemma json_escape_ascii_printable: "list_all printable (json_escape_ascii c)"
proof -
  have "list_all printable (hex4 n)" for n
    using hex_digit_printable [of "n div 4096 mod 16"] hex_digit_printable [of "n div 256 mod 16"]
      hex_digit_printable [of "n div 16 mod 16"] hex_digit_printable [of "n mod 16"]
    by (simp add: hex4_def)
  then show ?thesis by (auto simp: json_escape_ascii_def printable_def)
qed

lemma json_string_ascii_printable: "list_all printable (json_string_ascii s)"
  using json_escape_ascii_printable
  by (simp add: json_string_ascii_def printable_def list_all_iff)

lemma join_printable:
  "list_all printable sep \<Longrightarrow> \<forall>x \<in> set xs. list_all printable x \<Longrightarrow>
     list_all printable (join sep xs)"
  by (induction sep xs rule: join.induct) simp_all

lemma json_dumps_printable: "list_all printable (json_dumps v)"
proof (induction v rule: json_dumps.induct)
  case 1
  show ?case by (simp add: printable_def)
next
  case (2 b)
  show ?case by (simp add: printable_def)
next
  case (3 i)
  show ?case by (simp add: show_int_printable)
next
  case (4 s)
  show ?case by (simp add: json_string_ascii_printable)
next
  case (5 xs)
  have "list_all printable (join '', '' (map json_dumps xs))"
  proof (intro join_printable)
    show "list_all printable '', ''" by (simp add: printable_def)
    show "\<forall>x\<in>set (map json_dumps xs). list_all printable x" using 5 by simp
  qed
  moreover have "printable (CHR ''['')" "printable (CHR '']'')" by (simp_all add: printable_def)
  ultimately show ?case by simp
next
  case (6 d)
  have "list_all printable (join '', '' (map (\<lambda>kv. json_string_ascii (fst kv) @ '': '' @ json_dumps (snd kv)) d))"
  proof (intro join_printable)
    show "list_all printable '', ''" by (simp add: printable_def)
    show "\<forall>x\<in>set (map (\<lambda>kv. json_string_ascii (fst kv) @ '': '' @ json_dumps (snd kv)) d). list_all printable x"
    proof
      fix x assume "x \<in> set (map (\<lambda>kv. json_string_ascii (fst kv) @ '': '' @ json_dumps (snd kv)) d)"
      then obtain kv where kv: "kv \<in> set d" and x: "x = json_string_ascii (fst kv) @ '': '' @ json_dumps (snd kv)"
        by auto
      have "list_all printable '': ''" by (simp add: printable_def)
      moreover have "list_all printable (json_dumps (snd kv))"
        using 6 kv by auto
      ultimately show "list_all printable x"
        unfolding x using json_string_ascii_printable [of "fst kv"] by simp
    qed
  qed
  moreover have "printable (CHR ''{'')" "printable (CHR ''}'')" by (simp_all add: printable_def)
  ultimately show ?case by simp
qed

text \<open>
  Claim C5, as amended. For every non-empty mapping \<open>clean_text\<close> returns
  \<open>json.dumps\<close> of the mapping, a function of the mapping alone and a text of printable
  ASCII characters; the empty mapping is false in the test \<open>not text\<close> and gives the
  empty string.
\<close>
theorem clean_text_mapping_is_json_dumps:
  "(d \<noteq> [] \<longrightarrow> clean_text soup (PDict d) = Inr (json_dumps (PDict d)))
   \<and> list_all printable (json_dumps (PDict d))
   \<and> clean_text soup (PDict []) = Inr []"
proof (intro conjI impI)
  assume "d \<noteq> []"
  then show "clean_text soup (PDict d) = Inr (json_dumps (PDict d))"
    by (simp add: clean_text_def)
next
  show "list_all printable (json_dumps (PDict d))" by (rule json_dumps_printable)
next
  show "clean_text soup (PDict []) = Inr []" by (simp add: clean_text_def)
qed

theorem clean_text_mapping_is_json_dumps_witness:
  "clean_text html_parser_text (PDict [(''type'', PStr ''doc''), (''version'', PInt 1)])
     = Inr (''{'' @ [CHR 0x22] @ ''type'' @ [CHR 0x22] @ '': '' @ [CHR 0x22] @ ''doc'' @ [CHR 0x22]
            @ '', '' @ [CHR 0x22] @ ''version'' @ [CHR 0x22] @ '': 1}'')"
  using clean_text_mapping_is_json_dumps [of "[(''type'', PStr ''doc''), (''version'', PInt 1)]" html_parser_text]
  by (simp add: json_string_ascii_def json_escape_ascii_def show_int_def show_nat.simps)

text \<open>Claim C5 as it is stated fails on the empty mapping, whose serialization is \<^verbatim>\<open>{}\<close>.\<close>

theorem clean_text_empty_mapping_counterexample:
  "clean_text html_parser_text (PDict []) \<noteq> Inr (json_dumps (PDict []))"
  by (simp add: clean_text_def)

text \<open>
  Claim C2, as amended. On an input that is absent (false), a string or a mapping,
  \<open>clean_text\<close> returns a string, whatever the parser does; on a false input the string is
  empty. On any other input for which the parser raises, the fallback \<open>re.sub\<close> raises
  \<open>TypeError\<close>.
\<close>
theorem clean_text_returns_string:
  "(sanitizable v \<longrightarrow> (\<exists>t. clean_text soup v = Inr t))
   \<and> (\<not> truthy v \<longrightarrow> clean_text soup v = Inr [])
   \<and> (\<forall>e. \<not> sanitizable v \<and> soup v = Inl e \<longrightarrow>
         clean_text soup v =
           Inl (TypeError (''expected string or bytes-like object, got ''
                  @ [CHR 0x27] @ type_name v @ [CHR 0x27])))"
proof (intro conjI impI allI)
  assume "sanitizable v"
  then show "\<exists>t. clean_text soup v = Inr t" by (rule clean_text_sanitizable)
next
  assume "\<not> truthy v"
  then show "clean_text soup v = Inr []" by (rule clean_text_falsy)
next
  fix e assume "\<not> sanitizable v \<and> soup v = Inl e"
  then show "clean_text soup v =
           Inl (TypeError (''expected string or bytes-like object, got ''
                  @ [CHR 0x27] @ type_name v @ [CHR 0x27]))"
    by (cases v) (auto simp: clean_text_def)
qed

theorem clean_text_returns_string_witness:
  "sanitizable (PStr ''<div><span>text'') \<and> \<not> truthy PNone
   \<and> clean_text html_parser_text (PStr ''<div><span>text'') = Inr ''text''
   \<and> clean_text html_parser_text PNone = Inr []
   \<and> \<not> sanitizable (PBool True)
   \<and> clean_text html_parser_text (PBool True)
       = Inl (TypeError (''expected string or bytes-like object, got '' @ [CHR 0x27] @ ''bool'' @ [CHR 0x27]))"
  using clean_text_returns_string [of "PStr ''<div><span>text''" html_parser_text]
    clean_text_returns_string [of PNone html_parser_text]
    clean_text_returns_string [of "PBool True" html_parser_text]
  by (simp add: clean_text_def redact_emails_def collapse_spaces_def strip_def
      email_re_def space_re_def is_addr_def is_word_def is_space_def is_at_def is_dot_def
      is_ascii_letter_def)

text \<open>Claim C2 as it is stated fails on the number 5, which the parser rejects.\<close>

theorem clean_text_number_counterexample:
  "clean_text html_parser_text (PInt 5)
     = Inl (TypeError (''expected string or bytes-like object, got '' @ [CHR 0x27] @ ''int'' @ [CHR 0x27]))"
  by (simp add: clean_text_def)


lemma scenario_parsed:
  "html_parser_text (PStr scenario_markup) = Inr ''Crash on  login  for bob@example.com''"
  by (simp add: scenario_markup_def is_ascii_letter_def)

lemma scenario_fallback:
  "re_sub tag_re [] scenario_markup = ''Crash on login for bob@example.com''"
  by (simp add: scenario_markup_def tag_re_def is_lt_def is_gt_def not_lt_def)

lemma scenario_collapse1:
  "collapse_spaces ''Crash on  login  for bob@example.com'' = ''Crash on login for bob@example.com''"
  by (simp add: collapse_spaces_def strip_def space_re_def is_space_def)

lemma scenario_collapse2:
  "collapse_spaces ''Crash on login for bob@example.com'' = ''Crash on login for bob@example.com''"
  by (simp add: collapse_spaces_def strip_def space_re_def is_space_def)

lemma scenario_redact:
  "redact_emails ''Crash on login for bob@example.com'' = ''Crash on login for [REDACTED]''"
  by (simp add: redact_emails_def email_re_def is_addr_def is_word_def is_at_def is_dot_def)

lemma scenario_clean_text:
  assumes "soup (PStr scenario_markup) = Inr ''Crash on  login  for bob@example.com''
           \<or> (\<exists>e. soup (PStr scenario_markup) = Inl e)"
  shows "clean_text soup (PStr scenario_markup) = Inr ''Crash on login for [REDACTED]''"
proof -
  have ne: "truthy (PStr scenario_markup)" by (simp add: scenario_markup_def)
  from assms show ?thesis
  proof
    assume "soup (PStr scenario_markup) = Inr ''Crash on  login  for bob@example.com''"
    then show ?thesis using ne
      by (simp add: clean_text_def scenario_collapse1 scenario_redact)
  next
    assume "\<exists>e. soup (PStr scenario_markup) = Inl e"
    then obtain e where "soup (PStr scenario_markup) = Inl e" ..
    then show ?thesis using ne
      by (simp add: clean_text_def scenario_fallback scenario_collapse2 scenario_redact)
  qed
qed

subsection \<open>The scenario\<close>

text \<open>
  Claim C7. The raw issue of the scenario normalizes to the flat record of the scenario,
  whether the parser returns the text nodes of the description joined by a space or
  fails, so that the tags are removed by the fallback pattern.
\<close>
theorem scenario_normalizes:
  assumes "soup (PStr scenario_markup) = Inr ''Crash on  login  for bob@example.com''
           \<or> (\<exists>e. soup (PStr scenario_markup) = Inl e)"
  shows "normalize_issues soup (PList [scenario_raw]) = Inr [scenario_normalized]"
  using scenario_clean_text [of soup, OF assms]
  by (simp add: normalize_issues_def normalize_issue_def scenario_raw_def
      scenario_normalized_def new_JiraIssue_def)

theorem scenario_normalizes_witness:
  "normalize_issues html_parser_text (PList [scenario_raw]) = Inr [scenario_normalized]"
  using scenario_normalizes [of html_parser_text] scenario_parsed by simp

subsection \<open>The writer and the round trip\<close>



























subsection \<open>The regular expression engine and the redaction\<close>

lemma first_some_None_iff: "first_some f ns = None \<longleftrightarrow> (\<forall>n \<in> set ns. f n = None)"
  by (induction ns) (auto split: option.splits)

lemma first_some_SomeD: "first_some f ns = Some k \<Longrightarrow> \<exists>n \<in> set ns. f n = Some k"
  by (induction ns) (auto split: option.splits)

lemma take_all_takeWhile:
  "list_all p (take k s) \<Longrightarrow> k \<le> length s \<Longrightarrow> k \<le> length (takeWhile p s)"
proof (induction s arbitrary: k)
  case Nil
  then show ?case by simp
next
  case (Cons c s)
  then show ?case by (cases k) auto
qed

lemma takeWhile_take_all:
  "k \<le> length (takeWhile p s) \<Longrightarrow> list_all p (take k s)"
proof (induction s arbitrary: k)
  case Nil
  then show ?case by simp
next
  case (Cons c s)
  then show ?case by (cases k) (auto split: if_splits)
qed

lemma matches_One:
  "matches (One p # r) s \<longleftrightarrow> (\<exists>c cs. s = c # cs \<and> p c \<and> matches r cs)"
  by (cases s) simp_all

lemma matches_PlusGreedy:
  "matches (PlusGreedy p # r) s \<longleftrightarrow>
     (\<exists>n. 1 \<le> n \<and> n \<le> length s \<and> list_all p (take n s) \<and> matches r (drop n s))"
  by (auto simp: list_ex_iff simp del: upt_Suc)

lemma matches_PlusLazy:
  "matches (PlusLazy p # r) s \<longleftrightarrow>
     (\<exists>n. 1 \<le> n \<and> n \<le> length s \<and> list_all p (take n s) \<and> matches r (drop n s))"
  by (auto simp: list_ex_iff simp del: upt_Suc)

lemma plus_sound:
  assumes k: "1 \<le> k" "k \<le> length (takeWhile p s)"
    and j: "j \<le> length (drop k s)" "matches r (take j (drop k s))"
  shows "\<exists>n. 1 \<le> n \<and> n \<le> length (take (k + j) s) \<and> list_all p (take n (take (k + j) s))
           \<and> matches r (drop n (take (k + j) s))"
proof -
  have ks: "k \<le> length s" using k(2) length_takeWhile_le [of p s] by simp
  have len: "length (take (k + j) s) = k + j" using j(1) ks by simp
  have "list_all p (take k (take (k + j) s))"
    using takeWhile_take_all [OF k(2)] by (simp add: min_def)
  moreover have "drop k (take (k + j) s) = take j (drop k s)"
    by (simp add: drop_take)
  ultimately show ?thesis
    using k(1) j(2) unfolding len by (intro exI [of _ k]) simp
qed

lemma match_here_sound:
  "match_here r s = Some n \<Longrightarrow> n \<le> length s \<and> matches r (take n s)"
proof (induction r arbitrary: s n)
  case Nil
  then show ?case by simp
next
  case (Cons it r)
  show ?case
  proof (cases it)
    case (One p)
    with Cons.prems obtain c cs m where s: "s = c # cs" and "p c"
      and m: "match_here r cs = Some m" and n: "n = Suc m"
      by (cases s) (auto split: if_splits)
    from Cons.IH [OF m] show ?thesis using One s n \<open>p c\<close> by simp
  next
    case (PlusGreedy p)
    with Cons.prems obtain k where "k \<in> set (rev [1 ..< Suc (length (takeWhile p s))])"
      and "map_option (\<lambda>j. k + j) (match_here r (drop k s)) = Some n"
      using first_some_SomeD by fastforce
    then obtain j where k: "1 \<le> k" "k \<le> length (takeWhile p s)"
      and j: "match_here r (drop k s) = Some j" and n: "n = k + j"
      by auto
    from Cons.IH [OF j] have jj: "j \<le> length (drop k s)" "matches r (take j (drop k s))"
      by simp_all
    have "k \<le> length s" using k(2) length_takeWhile_le [of p s] by simp
    with jj(1) have "n \<le> length s" unfolding n by simp
    moreover have "matches (it # r) (take n s)"
      using plus_sound [OF k jj] unfolding n PlusGreedy matches_PlusGreedy .
    ultimately show ?thesis by simp
  next
    case (PlusLazy p)
    with Cons.prems obtain k where "k \<in> set [1 ..< Suc (length (takeWhile p s))]"
      and "map_option (\<lambda>j. k + j) (match_here r (drop k s)) = Some n"
      using first_some_SomeD by fastforce
    then obtain j where k: "1 \<le> k" "k \<le> length (takeWhile p s)"
      and j: "match_here r (drop k s) = Some j" and n: "n = k + j"
      by auto
    from Cons.IH [OF j] have jj: "j \<le> length (drop k s)" "matches r (take j (drop k s))"
      by simp_all
    have "k \<le> length s" using k(2) length_takeWhile_le [of p s] by simp
    with jj(1) have "n \<le> length s" unfolding n by simp
    moreover have "matches (it # r) (take n s)"
      using plus_sound [OF k jj] unfolding n PlusLazy matches_PlusLazy .
    ultimately show ?thesis by simp
  qed
qed

lemma plus_complete:
  assumes "1 \<le> k" "k \<le> length s" "list_all p (take k s)" "match_here r (drop k s) \<noteq> None"
    and "set ns = {1 ..< Suc (length (takeWhile p s))}"
  shows "first_some (\<lambda>n. map_option (\<lambda>j. n + j) (match_here r (drop n s))) ns \<noteq> None"
proof -
  from assms(2,3) have "k \<le> length (takeWhile p s)" by (simp add: take_all_takeWhile)
  with assms(1,5) have "k \<in> set ns" by simp
  with assms(4) show ?thesis by (auto simp: first_some_None_iff)
qed

lemma match_here_complete:
  "n \<le> length s \<Longrightarrow> matches r (take n s) \<Longrightarrow> match_here r s \<noteq> None"
proof (induction r arbitrary: s n)
  case Nil
  then show ?case by simp
next
  case (Cons it r)
  show ?case
  proof (cases it)
    case (One p)
    from Cons.prems(2) have "matches (One p # r) (take n s)" unfolding One .
    then obtain c cs where t: "take n s = c # cs" and "p c" and m: "matches r cs"
      unfolding matches_One by blast
    then obtain s' n' where s: "s = c # s'" and n: "n = Suc n'" and cs: "cs = take n' s'"
      by (cases s; cases n) auto
    from Cons.prems(1) s n have "n' \<le> length s'" by simp
    from Cons.IH [OF this] m cs have "match_here r s' \<noteq> None" by simp
    then show ?thesis using One s \<open>p c\<close> by simp
  next
    case (PlusGreedy p)
    from Cons.prems(2) have "matches (PlusGreedy p # r) (take n s)" unfolding PlusGreedy .
    then obtain k where k: "1 \<le> k" "k \<le> length (take n s)"
      and all: "list_all p (take k (take n s))" and m: "matches r (drop k (take n s))"
      unfolding matches_PlusGreedy by blast
    from k(2) Cons.prems(1) have kn: "k \<le> n" and ks: "k \<le> length s" by simp_all
    from all kn have all': "list_all p (take k s)" by (simp add: min_def)
    from m have "matches r (take (n - k) (drop k s))" by (simp add: drop_take)
    moreover have "n - k \<le> length (drop k s)" using Cons.prems(1) by simp
    ultimately have "match_here r (drop k s) \<noteq> None" using Cons.IH by blast
    from plus_complete [OF k(1) ks all' this, of "rev [1 ..< Suc (length (takeWhile p s))]"]
    show ?thesis using PlusGreedy by (simp del: upt_Suc)
  next
    case (PlusLazy p)
    from Cons.prems(2) have "matches (PlusLazy p # r) (take n s)" unfolding PlusLazy .
    then obtain k where k: "1 \<le> k" "k \<le> length (take n s)"
      and all: "list_all p (take k (take n s))" and m: "matches r (drop k (take n s))"
      unfolding matches_PlusLazy by blast
    from k(2) Cons.prems(1) have kn: "k \<le> n" and ks: "k \<le> length s" by simp_all
    from all kn have all': "list_all p (take k s)" by (simp add: min_def)
    from m have "matches r (take (n - k) (drop k s))" by (simp add: drop_take)
    moreover have "n - k \<le> length (drop k s)" using Cons.prems(1) by simp
    ultimately have "match_here r (drop k s) \<noteq> None" using Cons.IH by blast
    from plus_complete [OF k(1) ks all' this, of "[1 ..< Suc (length (takeWhile p s))]"]
    show ?thesis using PlusLazy by (simp del: upt_Suc)
  qed
qed



lemma matches_nonempty: "matches (it # r) m \<Longrightarrow> m \<noteq> []"
  by (cases it) (auto simp: list_ex_iff)

lemma match_here_positive:
  assumes "match_here (it # r) s = Some n"
  shows "0 < n"
proof -
  from match_here_sound [OF assms] have "matches (it # r) (take n s)" by simp
  from matches_nonempty [OF this] show ?thesis by (cases n) simp_all
qed

lemma matches_alphabet:
  "matches r m \<Longrightarrow> c \<in> set m \<Longrightarrow> \<exists>it \<in> set r. item_class it c"
proof (induction r arbitrary: m)
  case Nil
  then show ?case by simp
next
  case (Cons it r)
  show ?case
  proof (cases it)
    case (One p)
    with Cons.prems(1) obtain a m' where m: "m = a # m'" and "p a" and r: "matches r m'"
      unfolding One matches_One by blast
    with Cons.prems(2) Cons.IH [OF r] One show ?thesis by auto
  next
    case (PlusGreedy p)
    with Cons.prems(1) obtain n where all: "list_all p (take n m)" and r: "matches r (drop n m)"
      unfolding PlusGreedy matches_PlusGreedy by blast
    from Cons.prems(2) have "c \<in> set (take n m) \<or> c \<in> set (drop n m)"
      by (metis Un_iff append_take_drop_id set_append)
    with all Cons.IH [OF r] PlusGreedy show ?thesis by (auto simp: list_all_iff)
  next
    case (PlusLazy p)
    with Cons.prems(1) obtain n where all: "list_all p (take n m)" and r: "matches r (drop n m)"
      unfolding PlusLazy matches_PlusLazy by blast
    from Cons.prems(2) have "c \<in> set (take n m) \<or> c \<in> set (drop n m)"
      by (metis Un_iff append_take_drop_id set_append)
    with all Cons.IH [OF r] PlusLazy show ?thesis by (auto simp: list_all_iff)
  qed
qed

lemma email_alphabet:
  assumes "matches email_re m" "c \<in> set m"
  shows "is_addr c \<or> c = CHR 0x40"
  using matches_alphabet [OF assms]
  by (auto simp: email_re_def is_addr_def is_at_def is_dot_def)

lemma email_no_brackets:
  assumes "matches email_re m"
  shows "CHR ''['' \<notin> set m" and "CHR '']'' \<notin> set m"
  using email_alphabet [OF assms, of "CHR ''[''"] email_alphabet [OF assms, of "CHR '']''"]
  by (auto simp: is_addr_def is_word_def)

lemma email_has_at:
  assumes "matches email_re m"
  shows "CHR 0x40 \<in> set m"
proof -
  from assms obtain n where "matches [One is_at, PlusGreedy is_addr, One is_dot, PlusGreedy is_word] (drop n m)"
    unfolding email_re_def matches_PlusGreedy by blast
  then obtain cs where "drop n m = CHR 0x40 # cs"
    unfolding matches_One by (auto simp: is_at_def)
  then have "CHR 0x40 \<in> set (drop n m)" by simp
  then show ?thesis by (rule in_set_dropD)
qed


lemma split_at_separator:
  assumes "u @ m @ v = a @ x # b" "x \<notin> set m"
  shows "(\<exists>v'. a = u @ m @ v') \<or> (\<exists>u'. b = u' @ m @ v)"
proof -
  from assms(1) consider w where "u = a @ w" "w @ m @ v = x # b"
    | w where "u @ w = a" "m @ v = w @ x # b"
    by (auto simp: append_eq_append_conv2)
  then show ?thesis
  proof cases
    case 1
    show ?thesis
    proof (cases w)
      case Nil
      with 1 assms(2) have "m = []" by (cases m) auto
      with 1 Nil show ?thesis by simp
    next
      case (Cons y w')
      with 1 show ?thesis by auto
    qed
  next
    case 2
    from 2(2) consider w2 where "m = w @ w2" "w2 @ v = x # b"
      | w2 where "m @ w2 = w" "v = w2 @ x # b"
      by (auto simp: append_eq_append_conv2)
    then show ?thesis
    proof cases
      case 1
      with assms(2) have "w2 = []" by (cases w2) auto
      with 1 2 show ?thesis by auto
    next
      case 2
      with \<open>u @ w = a\<close> show ?thesis by auto
    qed
  qed
qed

lemma re_sub_prefix_source:
  "re_sub r repl s = w @ v \<Longrightarrow> repl = x # repl' \<Longrightarrow> x \<notin> set w \<Longrightarrow> \<exists>v'. s = w @ v'"
proof (induction r repl s arbitrary: w v rule: re_sub.induct)
  case (1 r repl)
  then show ?case by simp
next
  case (2 r repl c cs)
  show ?case
  proof (cases "match_here r (c # cs)")
    case None
    then have out: "re_sub r repl (c # cs) = c # re_sub r repl cs" by simp
    show ?thesis
    proof (cases w)
      case Nil
      then show ?thesis by simp
    next
      case (Cons y w')
      with out "2.prems"(1) have "y = c" and "re_sub r repl cs = w' @ v" by simp_all
      from "2.IH"(1) [OF None this(2) "2.prems"(2)] "2.prems"(3) Cons \<open>y = c\<close>
      show ?thesis by auto
    qed
  next
    case (Some k)
    show ?thesis
    proof (cases k)
      case 0
      with Some have out: "re_sub r repl (c # cs) = c # re_sub r repl cs" by simp
      show ?thesis
      proof (cases w)
        case Nil
        then show ?thesis by simp
      next
        case (Cons y w')
        with out "2.prems"(1) have "y = c" and "re_sub r repl cs = w' @ v" by simp_all
        from "2.IH"(2) [OF Some 0 this(2) "2.prems"(2)] "2.prems"(3) Cons \<open>y = c\<close>
        show ?thesis by auto
      qed
    next
      case (Suc n)
      with Some have "re_sub r repl (c # cs) = repl @ re_sub r repl (drop n cs)" by simp
      with "2.prems"(1,2) have "w @ v = x # repl' @ re_sub r repl (drop n cs)" by simp
      with "2.prems"(3) have "w = []" by (cases w) auto
      then show ?thesis by simp
    qed
  qed
qed


lemma re_sub_unchanged:
  "(\<forall>u m v. t = u @ m @ v \<longrightarrow> \<not> matches r m) \<Longrightarrow> re_sub r repl t = t"
proof (induction t)
  case Nil
  show ?case by simp
next
  case (Cons c cs)
  have "match_here r (c # cs) = None"
  proof (rule ccontr)
    assume "match_here r (c # cs) \<noteq> None"
    then obtain k where "match_here r (c # cs) = Some k" by blast
    from match_here_sound [OF this] have "matches r (take k (c # cs))" by simp
    moreover have "c # cs = [] @ take k (c # cs) @ drop k (c # cs)" by simp
    ultimately show False using Cons.prems by blast
  qed
  moreover have "re_sub r repl cs = cs"
  proof (rule Cons.IH, intro allI impI)
    fix u m v assume "cs = u @ m @ v"
    then have "c # cs = (c # u) @ m @ v" by simp
    with Cons.prems show "\<not> matches r m" by blast
  qed
  ultimately show ?case by simp
qed

lemma re_sub_segments:
  "\<exists>segs. source_text segs = t \<and> replace_hits repl segs = re_sub r repl t
          \<and> (\<forall>m. Hit m \<in> set segs \<longrightarrow> matches r m)"
proof (induction r repl t rule: re_sub.induct)
  case (1 r repl)
  have "source_text [] = [] \<and> replace_hits repl [] = re_sub r repl []
          \<and> (\<forall>m. Hit m \<in> set [] \<longrightarrow> matches r m)"
    by (simp add: source_text_def replace_hits_def)
  then show ?case by blast
next
  case (2 r repl c cs)
  show ?case
  proof (cases "match_here r (c # cs)")
    case None
    from "2.IH"(1) [OF None] obtain segs where segs: "source_text segs = cs"
      "replace_hits repl segs = re_sub r repl cs" "\<forall>m. Hit m \<in> set segs \<longrightarrow> matches r m"
      by blast
    have "source_text (Keep [c] # segs) = c # cs \<and>
          replace_hits repl (Keep [c] # segs) = re_sub r repl (c # cs) \<and>
          (\<forall>m. Hit m \<in> set (Keep [c] # segs) \<longrightarrow> matches r m)"
      using segs None by (simp add: source_text_def replace_hits_def)
    then show ?thesis by blast
  next
    case (Some k)
    show ?thesis
    proof (cases k)
      case 0
      from "2.IH"(2) [OF Some 0] obtain segs where segs: "source_text segs = cs"
        "replace_hits repl segs = re_sub r repl cs" "\<forall>m. Hit m \<in> set segs \<longrightarrow> matches r m"
        by blast
      have "source_text (Keep [c] # segs) = c # cs \<and>
            replace_hits repl (Keep [c] # segs) = re_sub r repl (c # cs) \<and>
            (\<forall>m. Hit m \<in> set (Keep [c] # segs) \<longrightarrow> matches r m)"
        using segs Some 0 by (simp add: source_text_def replace_hits_def)
      then show ?thesis by blast
    next
      case (Suc n)
      from "2.IH"(3) [OF Some Suc] obtain segs where segs: "source_text segs = drop n cs"
        "replace_hits repl segs = re_sub r repl (drop n cs)"
        "\<forall>m. Hit m \<in> set segs \<longrightarrow> matches r m"
        by blast
      from match_here_sound [OF Some] Suc have hit: "matches r (c # take n cs)" by simp
      have "source_text (Hit (c # take n cs) # segs) = c # cs \<and>
            replace_hits repl (Hit (c # take n cs) # segs) = re_sub r repl (c # cs) \<and>
            (\<forall>m. Hit m \<in> set (Hit (c # take n cs) # segs) \<longrightarrow> matches r m)"
        using segs Some Suc hit by (simp add: source_text_def replace_hits_def)
      then show ?thesis by blast
    qed
  qed
qed

lemma email_not_in_token:
  assumes "''REDACTED'' = u @ m @ v"
  shows "\<not> matches email_re m"
proof
  assume "matches email_re m"
  then have "CHR 0x40 \<in> set m" by (rule email_has_at)
  then have "CHR 0x40 \<in> set (u @ m @ v)" by simp
  then show False unfolding assms [symmetric] by simp
qed

lemma redact_no_email:
  "redact_emails t = u @ m @ v \<Longrightarrow> \<not> matches email_re m"
proof (induction t arbitrary: u m v rule: length_induct)
  case (1 t)
  note IH = "1.IH" [rule_format]
  have ne: "email_re = PlusGreedy is_addr # [One is_at, PlusGreedy is_addr, One is_dot, PlusGreedy is_word]"
    by (simp add: email_re_def)
  show ?case
  proof
    assume em: "matches email_re m"
    then have m_ne: "m \<noteq> []" using matches_nonempty [of "PlusGreedy is_addr"] unfolding ne by blast
    show False
    proof (cases t)
      case Nil
      with "1.prems" m_ne show False by (simp add: redact_emails_def)
    next
      case (Cons c cs)
      show False
      proof (cases "match_here email_re (c # cs)")
        case None
        then have out: "u @ m @ v = c # redact_emails cs"
          using "1.prems" Cons by (simp add: redact_emails_def)
        show False
        proof (cases u)
          case Nil
          with out m_ne obtain m' where m: "m = c # m'" and rest: "redact_emails cs = m' @ v"
            by (cases m) auto
          from email_no_brackets(1) [OF em] m have "CHR ''['' \<notin> set m'" by simp
          from re_sub_prefix_source [OF rest [unfolded redact_emails_def] _ this]
          obtain v' where "cs = m' @ v'" by auto
          then have "take (length m) (c # cs) = m" and "length m \<le> length (c # cs)"
            using m by simp_all
          with em have "match_here email_re (c # cs) \<noteq> None"
            using match_here_complete [of "length m" "c # cs" email_re] by simp
          with None show False by simp
        next
          case (Cons y u')
          with out have "redact_emails cs = u' @ m @ v" by simp
          moreover have "length cs < length t" using \<open>t = c # cs\<close> by simp
          ultimately show False using IH em by blast
        qed
      next
        case (Some k)
        from match_here_positive [OF Some [unfolded ne]] obtain n where k: "k = Suc n"
          by (cases k) simp_all
        from Some k have out: "u @ m @ v = [] @ CHR ''['' # (''REDACTED'' @ CHR '']'' # redact_emails (drop n cs))"
          using "1.prems" Cons by (simp add: redact_emails_def)
        from split_at_separator [OF out email_no_brackets(1) [OF em]] m_ne
        obtain u' where "''REDACTED'' @ CHR '']'' # redact_emails (drop n cs) = u' @ m @ v"
          by auto
        from split_at_separator [OF this [symmetric] email_no_brackets(2) [OF em]]
        consider v' where "''REDACTED'' = u' @ m @ v'"
          | u'' where "redact_emails (drop n cs) = u'' @ m @ v"
          by blast
        then show False
        proof cases
          case 1
          from email_not_in_token [OF this] em show False by simp
        next
          case 2
          moreover have "length (drop n cs) < length t" using \<open>t = c # cs\<close> by simp
          ultimately show False using IH em by blast
        qed
      qed
    qed
  qed
qed


lemma clean_text_str_redacted:
  "\<exists>t'. clean_text soup (PStr s) = Inr (redact_emails t')"
proof (cases "s = []")
  case True
  have "redact_emails [] = []" by (simp add: redact_emails_def)
  with True have "clean_text soup (PStr s) = Inr (redact_emails [])" by (simp add: clean_text_def)
  then show ?thesis by blast
next
  case False
  then show ?thesis
    by (cases "soup (PStr s)") (auto simp: clean_text_def)
qed

text \<open>
  Claim C8. The redaction step is \<open>re.sub\<close> with the e-mail pattern. The text it receives
  is cut into segments that are kept and segments that match the pattern, and the result
  is that text with each matching segment replaced by the token \<open>[REDACTED]\<close>; no
  substring of the result matches the pattern any more; a text without matching substring
  is returned unchanged. The output of \<open>clean_text\<close> on a string is the result of this
  step, so no substring of it matches the pattern.
\<close>
theorem redaction_replaces_emails:
  "(\<forall>u m v. redact_emails t = u @ m @ v \<longrightarrow> \<not> matches email_re m)
   \<and> (\<exists>segs. source_text segs = t \<and> replace_hits ''[REDACTED]'' segs = redact_emails t
          \<and> (\<forall>m. Hit m \<in> set segs \<longrightarrow> matches email_re m))
   \<and> ((\<forall>u m v. t = u @ m @ v \<longrightarrow> \<not> matches email_re m) \<longrightarrow> redact_emails t = t)
   \<and> (\<exists>out. clean_text soup (PStr s) = Inr out
          \<and> (\<forall>u m v. out = u @ m @ v \<longrightarrow> \<not> matches email_re m))"
proof (intro conjI)
  show "\<forall>u m v. redact_emails t = u @ m @ v \<longrightarrow> \<not> matches email_re m"
    using redact_no_email by blast
  show "\<exists>segs. source_text segs = t \<and> replace_hits ''[REDACTED]'' segs = redact_emails t
          \<and> (\<forall>m. Hit m \<in> set segs \<longrightarrow> matches email_re m)"
    unfolding redact_emails_def by (rule re_sub_segments)
  show "(\<forall>u m v. t = u @ m @ v \<longrightarrow> \<not> matches email_re m) \<longrightarrow> redact_emails t = t"
    unfolding redact_emails_def using re_sub_unchanged by blast
  from clean_text_str_redacted obtain t' where "clean_text soup (PStr s) = Inr (redact_emails t')"
    by blast
  then show "\<exists>out. clean_text soup (PStr s) = Inr out
          \<and> (\<forall>u m v. out = u @ m @ v \<longrightarrow> \<not> matches email_re m)"
    using redact_no_email by blast
qed

theorem redaction_replaces_emails_witness:
  "redact_emails ''mail bob@example.com now'' = ''mail [REDACTED] now''
   \<and> source_text [Keep ''mail '', Hit ''bob@example.com'', Keep '' now''] = ''mail bob@example.com now''
   \<and> replace_hits ''[REDACTED]'' [Keep ''mail '', Hit ''bob@example.com'', Keep '' now'']
       = ''mail [REDACTED] now''
   \<and> matches email_re ''bob@example.com''
   \<and> \<not> matches email_re ''mail''
   \<and> clean_text html_parser_text (PStr ''<p>mail bob@example.com now</p>'') = Inr ''mail [REDACTED] now''"
proof -
  have r: "redact_emails ''mail bob@example.com now'' = ''mail [REDACTED] now''"
    by (simp add: redact_emails_def email_re_def is_addr_def is_word_def is_at_def is_dot_def)
  have m: "matches email_re ''bob@example.com''"
    by (simp add: email_re_def is_addr_def is_word_def is_at_def is_dot_def)
  have c: "clean_text html_parser_text (PStr ''<p>mail bob@example.com now</p>'') = Inr ''mail [REDACTED] now''"
    by (simp add: clean_text_def collapse_spaces_def strip_def space_re_def is_space_def
        is_ascii_letter_def r)
  from redaction_replaces_emails [of "''mail bob@example.com now''" html_parser_text "[]"]
  have "\<forall>u m v. redact_emails ''mail bob@example.com now'' = u @ m @ v \<longrightarrow> \<not> matches email_re m"
    by blast
  then have "\<not> matches email_re ''mail''"
    unfolding r using append_Nil by (metis append_Cons)
  with r m c show ?thesis by (simp add: source_text_def replace_hits_def)
qed

end
